theory Spec2Isabelle
  imports Main "HOL-Library.Sublist" "HOL-Library.Multiset"
begin

chapter \<open>The model\<close>

section \<open>Strings\<close>

text \<open>
  JavaScript strings are modelled as \<open>string\<close> (lists of 8-bit characters): one
  \<open>char\<close> stands for one UTF-16 code unit, and every code unit is taken to be below 256
  (the Latin-1 range). Within that range the functions below are the JavaScript ones.
\<close>

definition nl :: char where
  "nl = CHR 0x0A"

text \<open>\<^verbatim>\<open>String.prototype.toLowerCase\<close>: A-Z, and the Latin-1 capitals (U+00C0 to U+00DE
  without the multiplication sign U+00D7), move up by 32.\<close>

definition lower_char :: "char \<Rightarrow> char" where
  "lower_char c =
     (let n = (of_char c :: nat)
      in if (65 \<le> n \<and> n \<le> 90) \<or> (192 \<le> n \<and> n \<le> 222 \<and> n \<noteq> 215)
         then char_of (n + 32) else c)"

definition toLowerCase :: "string \<Rightarrow> string" where
  "toLowerCase s = map lower_char s"

text \<open>\<^verbatim>\<open>s.includes(t)\<close> and \<^verbatim>\<open>s.endsWith(t)\<close>.\<close>

definition str_includes :: "string \<Rightarrow> string \<Rightarrow> bool" where
  "str_includes s t = sublist t s"

definition endsWith :: "string \<Rightarrow> string \<Rightarrow> bool" where
  "endsWith s t = suffix t s"

text \<open>\<^verbatim>\<open>s.replace(/^p/, '')\<close> for a literal \<open>p\<close>: a leading \<open>p\<close> is removed once.\<close>

definition stripLeading :: "string \<Rightarrow> string \<Rightarrow> string" where
  "stripLeading p s = (if prefix p s then drop (length p) s else s)"

text \<open>The class \<^verbatim>\<open>\s\<close> of regular expressions, which is also what \<^verbatim>\<open>trim\<close> removes:
  tab, line feed, vertical tab, form feed, carriage return, space and no-break space
  (the other members lie beyond the Latin-1 range).\<close>

definition is_space :: "char \<Rightarrow> bool" where
  "is_space c = ((of_char c :: nat) \<in> {9, 10, 11, 12, 13, 32, 160})"

definition is_digit :: "char \<Rightarrow> bool" where
  "is_digit c = (48 \<le> (of_char c :: nat) \<and> (of_char c :: nat) \<le> 57)"

definition trim :: "string \<Rightarrow> string" where
  "trim s = rev (dropWhile is_space (rev (dropWhile is_space s)))"

text \<open>Truthiness of a string: the empty string is falsy.\<close>

definition truthy_str :: "string option \<Rightarrow> bool" where
  "truthy_str v = (case v of None \<Rightarrow> False | Some s \<Rightarrow> s \<noteq> [])"

section \<open>Plain objects used as dictionaries\<close>

text \<open>
  The source keeps its tables in plain objects (\<^verbatim>\<open>{}\<close>). A property read \<^verbatim>\<open>obj[k]\<close> on
  such an object finds the object's own property \<open>k\<close> and otherwise what the object
  inherits from \<^verbatim>\<open>Object.prototype\<close>; every inherited member is a function or an object,
  hence truthy. These are the inherited names (V8):
\<close>

definition object_prototype_names :: "string list" where
  "object_prototype_names =
     [''constructor'', ''__defineGetter__'', ''__defineSetter__'', ''hasOwnProperty'',
      ''__lookupGetter__'', ''__lookupSetter__'', ''isPrototypeOf'', ''propertyIsEnumerable'',
      ''toString'', ''valueOf'', ''__proto__'', ''toLocaleString'']"

text \<open>An assignment \<^verbatim>\<open>obj[k] = v\<close> of an own property: an existing key keeps its place in
  the enumeration order, a new key goes last.\<close>

fun obj_set :: "'k \<Rightarrow> 'v \<Rightarrow> ('k \<times> 'v) list \<Rightarrow> ('k \<times> 'v) list" where
  "obj_set k v [] = [(k, v)]"
| "obj_set k v ((k', v') # kvs) =
     (if k' = k then (k, v) # kvs else (k', v') # obj_set k v kvs)"

section \<open>Blank-line compression\<close>

text \<open>
  \<^verbatim>\<open>cleanContent.bodyText.replace(/\n{3,}/g, '\n\n')\<close> (server.js, line 850).
  A global regular-expression replace scans from the left: where the greedy pattern
  \<^verbatim>\<open>\n{3,}\<close> matches (three newlines are next), the whole run of newlines is consumed
  and the replacement is emitted; otherwise one character is copied and the scan moves on.
\<close>

function compressBlankLines :: "string \<Rightarrow> string" where
  "compressBlankLines [] = []"
| "compressBlankLines (c # cs) =
     (if 3 \<le> length (takeWhile (\<lambda>x. x = nl) (c # cs))
      then [nl, nl] @ compressBlankLines (dropWhile (\<lambda>x. x = nl) (c # cs))
      else c # compressBlankLines cs)"
  by pat_completeness auto
termination
proof (relation "measure length")
  show "wf (measure length)" by simp
next
  fix c :: char and cs :: string
  assume a: "3 \<le> length (takeWhile (\<lambda>x. x = nl) (c # cs))"
  have "length (takeWhile (\<lambda>x. x = nl) (c # cs)) + length (dropWhile (\<lambda>x. x = nl) (c # cs))
        = length (c # cs)"
    by (metis length_append takeWhile_dropWhile_id)
  with a show "(dropWhile (\<lambda>x. x = nl) (c # cs), c # cs) \<in> measure length"
    by simp
next
  fix c :: char and cs :: string
  show "(cs, c # cs) \<in> measure length" by simp
qed

declare compressBlankLines.simps(2) [simp del]

section \<open>Domain rules\<close>

text \<open>A parsed JSON value. An object is the list of its own properties in enumeration
  order (\<^verbatim>\<open>Object.entries\<close>), with distinct keys; the value of a number plays no role
  in the code modelled here.\<close>

datatype json =
    JNull
  | JBool bool
  | JNum int
  | JStr string
  | JArr "json list"
  | JObj "(string \<times> json) list"

record domain_rule =
  selector :: "string option"
  blockedIfContains :: "string list"

definition empty_rule :: domain_rule where
  "empty_rule = \<lparr>selector = None, blockedIfContains = []\<rparr>"

text \<open>The table \<^verbatim>\<open>normalized\<close> / \<^verbatim>\<open>domainRules\<close>: its own properties in enumeration order,
  and its prototype when an assignment to the key \<^verbatim>\<open>__proto__\<close> has replaced
  \<^verbatim>\<open>Object.prototype\<close> by a rule object (\<open>None\<close>: still \<^verbatim>\<open>Object.prototype\<close>).\<close>

record rule_table =
  own :: "(string \<times> domain_rule) list"
  proto :: "domain_rule option"

definition empty_table :: rule_table where
  "empty_table = \<lparr>own = [], proto = None\<rparr>"

text \<open>What a read \<^verbatim>\<open>domainRules[k]\<close> or the resolver can yield.\<close>

datatype js_value =
    Undefined
  | Null
  | Str string
  | Arr "string list"
  | RuleObj domain_rule
  | Inherited string

fun truthy :: "js_value \<Rightarrow> bool" where
  "truthy Undefined = False"
| "truthy Null = False"
| "truthy (Str s) = (s \<noteq> [])"
| "truthy (Arr xs) = True"
| "truthy (RuleObj r) = True"
| "truthy (Inherited k) = True"

text \<open>\<^verbatim>\<open>normalized[domain] = rule\<close>: the key \<^verbatim>\<open>__proto__\<close> reaches the setter of
  \<^verbatim>\<open>Object.prototype\<close> and replaces the prototype instead of adding a property.\<close>

definition table_set :: "rule_table \<Rightarrow> string \<Rightarrow> domain_rule \<Rightarrow> rule_table" where
  "table_set T k r =
     (if k = ''__proto__'' then T\<lparr>proto := Some r\<rparr> else T\<lparr>own := obj_set k r (own T)\<rparr>)"

text \<open>\<^verbatim>\<open>domainRules[k]\<close>: own property, then the prototype chain (a rule object put there
  by \<open>table_set\<close>, then \<^verbatim>\<open>Object.prototype\<close>).\<close>

definition table_get :: "rule_table \<Rightarrow> string \<Rightarrow> js_value" where
  "table_get T k =
     (case map_of (own T) k of
        Some r \<Rightarrow> RuleObj r
      | None \<Rightarrow>
          (case proto T of
             Some p \<Rightarrow>
               if k = ''selector'' then (case selector p of Some s \<Rightarrow> Str s | None \<Rightarrow> Null)
               else if k = ''blockedIfContains'' then Arr (blockedIfContains p)
               else if k = ''__proto__'' then RuleObj p
               else if k \<in> set object_prototype_names then Inherited k
               else Undefined
           | None \<Rightarrow> if k \<in> set object_prototype_names then Inherited k else Undefined))"

text \<open>Decimal digits of an array index, for \<^verbatim>\<open>Object.entries\<close> of an array.\<close>

function show_nat :: "nat \<Rightarrow> string" where
  "show_nat n =
     (if n < 10 then [char_of (48 + n)] else show_nat (n div 10) @ [char_of (48 + n mod 10)])"
  by pat_completeness auto
termination
  by (relation "measure id") auto

declare show_nat.simps [simp del]

fun object_entries :: "json \<Rightarrow> (string \<times> json) list" where
  "object_entries (JObj kvs) = kvs"
| "object_entries (JArr xs) = zip (map show_nat [0..<length xs]) xs"
| "object_entries v = []"

text \<open>\<^verbatim>\<open>value.selector\<close> and \<^verbatim>\<open>value.blocked_if_contains\<close>: neither name is an array index or
  an inherited member, so the read finds an own property of an object or nothing.\<close>

fun get_field :: "json \<Rightarrow> string \<Rightarrow> json option" where
  "get_field (JObj kvs) k = map_of kvs k"
| "get_field v k = None"

text \<open>\<^verbatim>\<open>item => typeof item === 'string' && item.trim().length > 0\<close>, and the strings of
  the items that pass.\<close>

fun blocked_item :: "json \<Rightarrow> string option" where
  "blocked_item (JStr s) = (if 0 < length (trim s) then Some s else None)"
| "blocked_item v = None"

definition rule_of_object :: "json \<Rightarrow> domain_rule" where
  "rule_of_object value =
     \<lparr>selector = (case get_field value ''selector'' of Some (JStr s) \<Rightarrow> Some s | _ \<Rightarrow> None),
      blockedIfContains =
        (case get_field value ''blocked_if_contains'' of
           Some (JArr items) \<Rightarrow> List.map_filter blocked_item items
         | _ \<Rightarrow> [])\<rparr>"

text \<open>One round of the loop of \<^verbatim>\<open>normalizeDomainRules\<close> (server.js, lines 98-111).\<close>

fun normalize_entry :: "rule_table \<Rightarrow> string \<times> json \<Rightarrow> rule_table" where
  "normalize_entry T (domain, v) =
     (if domain = [] then T
      else case v of
             JStr s \<Rightarrow> table_set T domain \<lparr>selector = Some s, blockedIfContains = []\<rparr>
           | JObj kvs \<Rightarrow> table_set T domain (rule_of_object v)
           | JArr xs \<Rightarrow> table_set T domain (rule_of_object v)
           | _ \<Rightarrow> T)"

text \<open>\<^verbatim>\<open>normalizeDomainRules\<close>: only objects and arrays pass
  \<^verbatim>\<open>!rawRules || typeof rawRules !== 'object'\<close>.\<close>

fun normalizeDomainRules :: "json \<Rightarrow> rule_table" where
  "normalizeDomainRules (JObj kvs) = foldl normalize_entry empty_table (object_entries (JObj kvs))"
| "normalizeDomainRules (JArr xs) = foldl normalize_entry empty_table (object_entries (JArr xs))"
| "normalizeDomainRules v = empty_table"

text \<open>The load at start-up (lines 80-92): \<open>None\<close> stands for a configuration file that
  is missing, unreadable or not JSON, where the table stays empty.\<close>

definition load_domain_rules :: "json option \<Rightarrow> rule_table" where
  "load_domain_rules cfg = (case cfg of None \<Rightarrow> empty_table | Some rawRules \<Rightarrow> normalizeDomainRules rawRules)"

text \<open>What the code reads of \<^verbatim>\<open>new URL(url)\<close>. The parser belongs to the platform; the
  functions below take it as the parameter \<open>parseURL\<close>, \<open>None\<close> where it throws.\<close>

record url =
  hostname :: string
  pathname :: string

text \<open>\<^verbatim>\<open>hostname.replace(/^(www\.|m\.|mobile\.)/, '')\<close>: the alternatives are tried in this
  order, at the start only, once.\<close>

definition mainDomain_of :: "string \<Rightarrow> string" where
  "mainDomain_of h =
     (if prefix ''www.'' h then drop 4 h
      else if prefix ''m.'' h then drop 2 h
      else if prefix ''mobile.'' h then drop 7 h
      else h)"

text \<open>The loop over \<^verbatim>\<open>Object.entries(domainRules)\<close> (lines 133-137).\<close>

fun partial_match :: "string \<Rightarrow> string \<Rightarrow> (string \<times> domain_rule) list \<Rightarrow> domain_rule option" where
  "partial_match h mainDomain [] = None"
| "partial_match h mainDomain ((domain, rule) # rest) =
     (if str_includes h domain \<or> str_includes domain mainDomain then Some rule
      else partial_match h mainDomain rest)"

text \<open>\<^verbatim>\<open>getDomainRuleForUrl\<close> (lines 116-143), with the table \<^verbatim>\<open>domainRules\<close> of the module
  as a parameter.\<close>

definition getDomainRuleForUrl :: "(string \<Rightarrow> url option) \<Rightarrow> rule_table \<Rightarrow> string \<Rightarrow> js_value" where
  "getDomainRuleForUrl parseURL domainRules u =
     (case parseURL u of
        None \<Rightarrow> RuleObj empty_rule
      | Some urlObj \<Rightarrow>
          (let h = toLowerCase (hostname urlObj) in
           if truthy (table_get domainRules h) then table_get domainRules h
           else
             (let mainDomain = mainDomain_of h in
              if truthy (table_get domainRules mainDomain) then table_get domainRules mainDomain
              else
                (case partial_match h mainDomain (own domainRules) of
                   Some rule \<Rightarrow> RuleObj rule
                 | None \<Rightarrow> RuleObj empty_rule))))"

text \<open>The shape of a rule: its markers are non-empty strings (its selector is a string or
  null by its type). A table is well-shaped when its rules, and its prototype if it is a
  rule, are.\<close>

definition rule_shape :: "domain_rule \<Rightarrow> bool" where
  "rule_shape r = list_all (\<lambda>s. s \<noteq> []) (blockedIfContains r)"

definition table_shape :: "rule_table \<Rightarrow> bool" where
  "table_shape T =
     (list_all (\<lambda>e. rule_shape (snd e)) (own T)
      \<and> (case proto T of None \<Rightarrow> True | Some p \<Rightarrow> rule_shape p))"

text \<open>The result of the resolver has the shape of a rule.\<close>

fun result_shape :: "js_value \<Rightarrow> bool" where
  "result_shape (RuleObj r) = rule_shape r"
| "result_shape v = False"

section \<open>Credential files\<close>

text \<open>
  A cookie entry of a snapshot file: an object whose fields, where present, are strings
  (\<open>expirationDate\<close>: a whole number of seconds since the epoch), as the browser extension
  writes them. \<open>None\<close> is an absent field. The field \<^verbatim>\<open>value\<close> is \<open>cvalue\<close> here.
\<close>

record cookie =
  name :: "string option"
  cvalue :: "string option"
  domain :: "string option"
  path :: "string option"
  expirationDate :: "int option"
  secure :: bool
  httpOnly :: bool
  sameSite :: "string option"

text \<open>
  What the merge reads of a parsed file: \<open>cookies\<close> is \<open>None\<close> unless \<^verbatim>\<open>data.cookies\<close> is an
  array, \<open>localStorage\<close> is \<open>None\<close> unless \<^verbatim>\<open>data.localStorage\<close> is an object (then: its own
  properties in enumeration order, with distinct keys and string values).
\<close>

record snapshot =
  cookies :: "cookie list option"
  localStorage :: "(string \<times> string) list option"

text \<open>The object \<^verbatim>\<open>merged\<close>; \<open>merged_cookies\<close> is its field \<^verbatim>\<open>cookies\<close>, and
  \<open>localStorageByDomain\<close> holds the own properties of that object and of its buckets, in
  the order of their creation (JavaScript enumerates keys that are array indices first;
  nothing below depends on the order of the buckets or of their keys).\<close>

record merged =
  merged_cookies :: "cookie list"
  localStorageByDomain :: "(string \<times> (string \<times> string) list) list"

subsection \<open>File names\<close>

text \<open>\<^verbatim>\<open>(\s*\(\d+\))?\.json$\<close> with the flag \<^verbatim>\<open>i\<close>, matched against a whole rest of a name.
  The greedy \<^verbatim>\<open>\s*\<close> and \<^verbatim>\<open>\d+\<close> have nothing to give back: what follows each is a
  character outside its class.\<close>

definition numbering_json :: "string \<Rightarrow> bool" where
  "numbering_json r =
     (toLowerCase r = ''.json'' \<or>
      (case dropWhile is_space r of
         [] \<Rightarrow> False
       | c # r2 \<Rightarrow>
           c = CHR ''('' \<and> takeWhile is_digit r2 \<noteq> [] \<and>
           (case dropWhile is_digit r2 of
              [] \<Rightarrow> False
            | d # r4 \<Rightarrow> d = CHR '')'' \<and> toLowerCase r4 = ''.json'')))"

text \<open>\<^verbatim>\<open>_cookies(\s*\(\d+\))?\.json$\<close> matched at the start of \<open>s\<close>.\<close>

definition is_cookie_suffix :: "string \<Rightarrow> bool" where
  "is_cookie_suffix s = (toLowerCase (take 8 s) = ''_cookies'' \<and> numbering_json (drop 8 s))"

text \<open>\<^verbatim>\<open>/_cookies(\s*\(\d+\))?\.json$/i.test(file)\<close> (line 160): some position matches.\<close>

fun test_cookie_file :: "string \<Rightarrow> bool" where
  "test_cookie_file [] = is_cookie_suffix []"
| "test_cookie_file (c # cs) = (is_cookie_suffix (c # cs) \<or> test_cookie_file cs)"

text \<open>The group \<^verbatim>\<open>m[1]\<close> of \<^verbatim>\<open>filename.match(/^(.*?)_cookies(\s*\(\d+\))?\.json$/i)\<close>
  (line 188): the lazy \<^verbatim>\<open>(.*?)\<close> grows one character at a time, never over a line
  terminator, until the rest matches.\<close>

definition is_line_terminator :: "char \<Rightarrow> bool" where
  "is_line_terminator c = ((of_char c :: nat) \<in> {10, 13})"

fun match_filename :: "string \<Rightarrow> string option" where
  "match_filename [] = (if is_cookie_suffix [] then Some [] else None)"
| "match_filename (c # cs) =
     (if is_cookie_suffix (c # cs) then Some []
      else if is_line_terminator c then None
      else map_option ((#) c) (match_filename cs))"

text \<open>\<^verbatim>\<open>sourceDomain\<close> (lines 187-191): \<^verbatim>\<open>null\<close> is \<open>None\<close>.\<close>

definition sourceDomain_of :: "string \<Rightarrow> string option" where
  "sourceDomain_of filename =
     (case match_filename filename of
        None \<Rightarrow> None
      | Some m1 \<Rightarrow> if m1 \<noteq> [] then Some (stripLeading ''www.'' m1) else None)"

subsection \<open>The merge\<close>

text \<open>The template string \<^verbatim>\<open>`${c.name}|${c.domain}|${pathVal}`\<close>.\<close>

definition cookie_key :: "string \<Rightarrow> string \<Rightarrow> string \<Rightarrow> string" where
  "cookie_key n d p = n @ ''|'' @ d @ ''|'' @ p"

text \<open>\<^verbatim>\<open>c.path || '/'\<close>.\<close>

definition pathVal_of :: "cookie \<Rightarrow> string" where
  "pathVal_of c = (case path c of None \<Rightarrow> ''/'' | Some p \<Rightarrow> if p = [] then ''/'' else p)"

text \<open>The state of the loops: \<^verbatim>\<open>merged.cookies\<close>, \<^verbatim>\<open>seenKeys\<close> and
  \<^verbatim>\<open>merged.localStorageByDomain\<close>, and the writes that \<^verbatim>\<open>Object.assign\<close> (line 209) has made
  to members that every object inherits: the name of the member and the object copied to
  it, in the order of the writes. Such a write changes \<^verbatim>\<open>Object.prototype\<close> or a built-in
  function for the rest of the process.\<close>

type_synonym write_log = "(string \<times> (string \<times> string) list) list"

record merge_state =
  acc_cookies :: "cookie list"
  seenKeys :: "string set"
  acc_localStorage :: "(string \<times> (string \<times> string) list) list"
  inherited_writes :: write_log

text \<open>One round of the loop over the cookies of a file (lines 195-202).\<close>

definition merge_cookie :: "merge_state \<Rightarrow> cookie \<Rightarrow> merge_state" where
  "merge_cookie st c =
     (if \<not> truthy_str (name c) \<or> \<not> truthy_str (cvalue c) \<or> \<not> truthy_str (domain c) then st
      else
        (let pathVal = pathVal_of c;
             key = cookie_key (the (name c)) (the (domain c)) pathVal
         in if key \<in> seenKeys st then st
            else st\<lparr>acc_cookies := acc_cookies st @ [c\<lparr>path := Some pathVal\<rparr>],
                    seenKeys := insert key (seenKeys st)\<rparr>))"

text \<open>\<^verbatim>\<open>Object.assign(target, source)\<close> on the own properties of \<open>target\<close>: each own property
  of \<open>source\<close> is assigned, and the assignment of the key \<^verbatim>\<open>__proto__\<close> reaches the
  inherited setter, which adds no property.\<close>

fun assign_property :: "(string \<times> string) list \<Rightarrow> string \<times> string \<Rightarrow> (string \<times> string) list" where
  "assign_property target (k, v) = (if k = ''__proto__'' then target else obj_set k v target)"

definition object_assign :: "(string \<times> string) list \<Rightarrow> (string \<times> string) list \<Rightarrow> (string \<times> string) list" where
  "object_assign target source = foldl assign_property target source"

text \<open>The read \<^verbatim>\<open>merged.localStorageByDomain[d]\<close> of lines 206 and 209: an own bucket,
  else a member that every object inherits (an object or a function, truthy), else
  \<^verbatim>\<open>undefined\<close>.\<close>

datatype bucket_read =
    OwnBucket "(string \<times> string) list"
  | InheritedMember
  | NoBucket

definition read_bucket :: "(string \<times> (string \<times> string) list) list \<Rightarrow> string \<Rightarrow> bucket_read" where
  "read_bucket byDomain d =
     (case map_of byDomain d of
        Some bucket \<Rightarrow> OwnBucket bucket
      | None \<Rightarrow> if d \<in> set object_prototype_names then InheritedMember else NoBucket)"

text \<open>Lines 206-209. Where the read finds nothing, an empty bucket is created first.
  Where it finds an inherited member (\<^verbatim>\<open>Object.prototype\<close> for \<^verbatim>\<open>__proto__\<close>, the function
  \<^verbatim>\<open>Object\<close> for \<^verbatim>\<open>constructor\<close>), no bucket is created and \<^verbatim>\<open>Object.assign\<close> copies the
  \<^verbatim>\<open>localStorage\<close> of the file to that member: \<^verbatim>\<open>merged\<close> gets nothing, and the write is
  recorded.\<close>

definition merge_localStorage :: "merge_state \<Rightarrow> string \<Rightarrow> (string \<times> string) list \<Rightarrow> merge_state" where
  "merge_localStorage st d ls =
     (case read_bucket (acc_localStorage st) d of
        OwnBucket bucket \<Rightarrow>
          st\<lparr>acc_localStorage := obj_set d (object_assign bucket ls) (acc_localStorage st)\<rparr>
      | NoBucket \<Rightarrow>
          st\<lparr>acc_localStorage := obj_set d (object_assign [] ls) (acc_localStorage st)\<rparr>
      | InheritedMember \<Rightarrow>
          st\<lparr>inherited_writes := inherited_writes st @ [(d, ls)]\<rparr>)"

text \<open>One round of the loop over the files (lines 181-215). The content of a file is
  \<open>None\<close> when it cannot be read or parsed, or parses to a falsy value
  (\<^verbatim>\<open>if (!data) continue\<close>). With fields of the types above, and as long as no inherited
  member has been written, nothing in the body throws.\<close>

fun merge_file :: "merge_state \<Rightarrow> string \<times> snapshot option \<Rightarrow> merge_state" where
  "merge_file st (filename, None) = st"
| "merge_file st (filename, Some data) =
     (let st1 = foldl merge_cookie st (case cookies data of None \<Rightarrow> [] | Some cs \<Rightarrow> cs)
      in case localStorage data of
           None \<Rightarrow> st1
         | Some ls \<Rightarrow>
             (case sourceDomain_of filename of
                None \<Rightarrow> st1
              | Some d \<Rightarrow>
                  if d = [] then st1 else merge_localStorage st1 d ls))"

text \<open>\<^verbatim>\<open>listAllCookieFiles\<close> (lines 152-165) over the listing of the cookie directory: the
  names in the order \<^verbatim>\<open>readdirSync\<close> gives them, each with its content; a missing
  directory is the empty listing.\<close>

definition listAllCookieFiles :: "(string \<times> snapshot option) list \<Rightarrow> (string \<times> snapshot option) list" where
  "listAllCookieFiles dir = filter (\<lambda>f. test_cookie_file (fst f)) dir"

definition init_state :: merge_state where
  "init_state = \<lparr>acc_cookies = [], seenKeys = {}, acc_localStorage = [], inherited_writes = []\<rparr>"

text \<open>
  A write to an inherited member changes what later property reads of every object find
  (the guard of line 196 and the read of line 206 among them), in the same call and in
  every later one. The model does not follow the code past such a write: a call that
  makes one, or that starts after one, is reported as \<open>Inl InheritedMemberWritten\<close>.
\<close>

datatype merge_error = InheritedMemberWritten

text \<open>\<^verbatim>\<open>loadAndMergeAllCookies\<close> (lines 168-221), from the writes made to inherited members
  before the call (\<open>[]\<close>: the built-in objects are as the platform made them) and the
  listing of the directory, to the result (\<^verbatim>\<open>null\<close> is \<open>Inr None\<close>) and the writes made up
  to the end of the call.\<close>

definition loadAndMergeAllCookies ::
  "write_log \<Rightarrow> (string \<times> snapshot option) list \<Rightarrow> (merge_error + merged option) \<times> write_log" where
  "loadAndMergeAllCookies env dir =
     (if env \<noteq> [] then (Inl InheritedMemberWritten, env)
      else
        (let files = listAllCookieFiles dir in
         if files = [] then (Inr None, env)
         else
           (let st = foldl merge_file init_state files in
            if inherited_writes st \<noteq> [] then (Inl InheritedMemberWritten, inherited_writes st)
            else if acc_cookies st = [] \<and> acc_localStorage st = [] then (Inr None, env)
            else (Inr (Some \<lparr>merged_cookies = acc_cookies st,
                                localStorageByDomain = acc_localStorage st\<rparr>), env))))"

subsection \<open>Expiry\<close>

text \<open>\<^verbatim>\<open>new Date(t)\<close> for a number of milliseconds: beyond 8.64e15 either way the date is
  invalid (\<open>None\<close>), and every comparison with an invalid date is false.\<close>

definition timeClip :: "int \<Rightarrow> int option" where
  "timeClip t = (if 8640000000000000 < \<bar>t\<bar> then None else Some t)"

definition date_gt :: "int \<Rightarrow> int option \<Rightarrow> bool" where
  "date_gt now t = (case t of None \<Rightarrow> False | Some ms \<Rightarrow> ms < now)"

text \<open>\<^verbatim>\<open>!cookie.expirationDate\<close>: absent, or the number 0.\<close>

definition truthy_num :: "int option \<Rightarrow> bool" where
  "truthy_num v = (case v of None \<Rightarrow> False | Some n \<Rightarrow> n \<noteq> 0)"

text \<open>\<^verbatim>\<open>String(cookie.domain).toLowerCase().replace(/^\./, '').replace(/^www\./, '')\<close>.\<close>

definition cookieDomain_of :: "string \<Rightarrow> string" where
  "cookieDomain_of d = stripLeading ''www.'' (stripLeading ''.'' (toLowerCase d))"

text \<open>\<^verbatim>\<open>String(hostname).toLowerCase().replace(/^www\./, '')\<close>.\<close>

definition cleanHost_of :: "string \<Rightarrow> string" where
  "cleanHost_of h = stripLeading ''www.'' (toLowerCase h)"

text \<open>One round of the loop of \<^verbatim>\<open>isCookieExpiredForDomain\<close> (lines 367-380) on the pair
  (\<^verbatim>\<open>hasExpiredCookies\<close>, \<^verbatim>\<open>totalWithExpiration\<close>); the counters that only feed the log are
  left out.\<close>

fun expiry_step :: "string \<Rightarrow> int \<Rightarrow> bool \<times> nat \<Rightarrow> cookie \<Rightarrow> bool \<times> nat" where
  "expiry_step cleanHost now (hasExpiredCookies, totalWithExpiration) c =
     (if \<not> truthy_str (domain c) \<or> \<not> truthy_num (expirationDate c)
      then (hasExpiredCookies, totalWithExpiration)
      else
        (let cookieDomain = cookieDomain_of (the (domain c));
             matched = (cleanHost = cookieDomain \<or> endsWith cleanHost (''.'' @ cookieDomain))
         in if \<not> matched then (hasExpiredCookies, totalWithExpiration)
            else (hasExpiredCookies \<or> date_gt now (timeClip (the (expirationDate c) * 1000)),
                  Suc totalWithExpiration)))"

text \<open>\<^verbatim>\<open>isCookieExpiredForDomain\<close> (lines 356-393); \<open>now\<close> is \<^verbatim>\<open>new Date()\<close> in milliseconds.\<close>

definition isCookieExpiredForDomain :: "merged \<Rightarrow> string \<Rightarrow> int \<Rightarrow> bool" where
  "isCookieExpiredForDomain cookieData h now =
     (if h = [] then False
      else
        (let r = foldl (expiry_step (cleanHost_of h) now) (False, 0) (merged_cookies cookieData)
         in fst r \<and> 0 < snd r))"

subsection \<open>Readings of the specification\<close>

text \<open>The expiry check as the specification words it: some cookie has an expiration time
  stamp, its domain matches the host name exactly or as a suffix after a dot, both sides
  taken without a leading dot and a leading \<open>www.\<close>, and its expiration time lies strictly
  before the evaluation time.\<close>

definition claimed_normalize :: "string \<Rightarrow> string" where
  "claimed_normalize d = stripLeading ''www.'' (stripLeading ''.'' d)"

definition claimed_expired_cookie :: "string \<Rightarrow> int \<Rightarrow> cookie \<Rightarrow> bool" where
  "claimed_expired_cookie h now c =
     (case domain c of
        None \<Rightarrow> False
      | Some d \<Rightarrow>
          (case expirationDate c of
             None \<Rightarrow> False
           | Some e \<Rightarrow>
               (claimed_normalize h = claimed_normalize d
                  \<or> endsWith (claimed_normalize h) (''.'' @ claimed_normalize d))
               \<and> e * 1000 < now))"

definition claimed_isCookieExpiredForDomain :: "merged \<Rightarrow> string \<Rightarrow> int \<Rightarrow> bool" where
  "claimed_isCookieExpiredForDomain cookieData h now =
     list_ex (claimed_expired_cookie h now) (merged_cookies cookieData)"

subsection \<open>Notions for stating the properties of the merge\<close>

text \<open>The guard of line 196: the entry has a non-empty name, value and domain.\<close>

definition valid_cookie :: "cookie \<Rightarrow> bool" where
  "valid_cookie c = (truthy_str (name c) \<and> truthy_str (cvalue c) \<and> truthy_str (domain c))"

text \<open>The key string of an entry (line 198) and the entry as it is stored (line 201).\<close>

definition key_of :: "cookie \<Rightarrow> string" where
  "key_of c = cookie_key (the (name c)) (the (domain c)) (pathVal_of c)"

definition with_path :: "cookie \<Rightarrow> cookie" where
  "with_path c = c\<lparr>path := Some (pathVal_of c)\<rparr>"

text \<open>The cookie entries of one file, and of all files of the scan, in scan order.\<close>

definition file_cookies :: "string \<times> snapshot option \<Rightarrow> cookie list" where
  "file_cookies f =
     (case snd f of
        None \<Rightarrow> []
      | Some data \<Rightarrow> (case cookies data of None \<Rightarrow> [] | Some cs \<Rightarrow> cs))"

definition scanned_cookies :: "(string \<times> snapshot option) list \<Rightarrow> cookie list" where
  "scanned_cookies dir = concat (map file_cookies (listAllCookieFiles dir))"

text \<open>Keeping the first valid entry of every key not seen before.\<close>

fun first_wins :: "string set \<Rightarrow> cookie list \<Rightarrow> cookie list" where
  "first_wins seen [] = []"
| "first_wins seen (c # cs) =
     (if valid_cookie c \<and> key_of c \<notin> seen
      then with_path c # first_wins (insert (key_of c) seen) cs
      else first_wins seen cs)"

text \<open>The \<^verbatim>\<open>localStorage\<close> object a file brings for the domain \<open>d\<close>, if any.\<close>

definition file_localStorage :: "string \<times> snapshot option \<Rightarrow> string \<Rightarrow> (string \<times> string) list option" where
  "file_localStorage f d =
     (case snd f of
        None \<Rightarrow> None
      | Some data \<Rightarrow>
          if test_cookie_file (fst f) \<and> sourceDomain_of (fst f) = Some d then localStorage data
          else None)"

text \<open>The file has a \<^verbatim>\<open>localStorage\<close> object and a non-empty source domain.\<close>

definition has_localStorage :: "string \<times> snapshot option \<Rightarrow> bool" where
  "has_localStorage f =
     (case snd f of
        None \<Rightarrow> False
      | Some data \<Rightarrow>
          localStorage data \<noteq> None \<and>
          (case sourceDomain_of (fst f) of None \<Rightarrow> False | Some d \<Rightarrow> d \<noteq> []))"

text \<open>The source domain of the file is a name that every object inherits.\<close>

definition inherited_domain :: "string \<times> snapshot option \<Rightarrow> bool" where
  "inherited_domain f =
     (case sourceDomain_of (fst f) of None \<Rightarrow> False | Some d \<Rightarrow> d \<in> set object_prototype_names)"

text \<open>The buckets of \<^verbatim>\<open>merged\<close> after lines 206-209.\<close>

definition assign_bucket ::
  "(string \<times> (string \<times> string) list) list \<Rightarrow> string \<Rightarrow> (string \<times> string) list
     \<Rightarrow> (string \<times> (string \<times> string) list) list" where
  "assign_bucket byDomain d ls = acc_localStorage (merge_localStorage
     \<lparr>acc_cookies = [], seenKeys = {}, acc_localStorage = byDomain, inherited_writes = []\<rparr> d ls)"

text \<open>The value under key \<open>k\<close> in the bucket of domain \<open>d\<close>.\<close>

definition bucket_value :: "(string \<times> (string \<times> string) list) list \<Rightarrow> string \<Rightarrow> string \<Rightarrow> string option" where
  "bucket_value byDomain d k = (case map_of byDomain d of None \<Rightarrow> None | Some b \<Rightarrow> map_of b k)"

text \<open>The file is one of the scan, has the source domain \<open>d\<close>, and its \<^verbatim>\<open>localStorage\<close>
  object has the key \<open>k\<close>.\<close>

definition file_has_key :: "string \<times> snapshot option \<Rightarrow> string \<Rightarrow> string \<Rightarrow> bool" where
  "file_has_key f d k =
     (case file_localStorage f d of None \<Rightarrow> False | Some ls \<Rightarrow> k \<in> fst ` set ls)"

text \<open>The specification's reading of a file that brings nothing: no cookie entry that
  passes the guard, and no key in its \<^verbatim>\<open>localStorage\<close>.\<close>

definition claimed_no_material :: "string \<times> snapshot option \<Rightarrow> bool" where
  "claimed_no_material f =
     (\<not> list_ex valid_cookie (file_cookies f) \<and>
      (case snd f of
         None \<Rightarrow> True
       | Some data \<Rightarrow> (case localStorage data of None \<Rightarrow> True | Some ls \<Rightarrow> ls = [])))"

subsection \<open>Inputs for the examples\<close>

definition example_cookie :: "string \<Rightarrow> string \<Rightarrow> string \<Rightarrow> string option \<Rightarrow> cookie" where
  "example_cookie n v d p =
     \<lparr>name = Some n, cvalue = Some v, domain = Some d, path = p, expirationDate = None,
      secure = False, httpOnly = False, sameSite = None\<rparr>"

definition example_file ::
  "string \<Rightarrow> cookie list \<Rightarrow> (string \<times> string) list \<Rightarrow> string \<times> snapshot option" where
  "example_file fn cs ls = (fn, Some \<lparr>cookies = Some cs, localStorage = Some ls\<rparr>)"

subsection \<open>The cookie merge as the specification words it\<close>

text \<open>Of all cookie entries of the scan, the first of each identity key (name, domain,
  path), a missing path counting as \<open>/\<close>, is kept with its value; every later entry of
  the same key is dropped.\<close>

definition claimed_key :: "cookie \<Rightarrow> string option \<times> string option \<times> string" where
  "claimed_key c = (name c, domain c, (case path c of None \<Rightarrow> ''/'' | Some p \<Rightarrow> p))"

fun claimed_first_wins ::
  "(string option \<times> string option \<times> string) list \<Rightarrow> cookie list \<Rightarrow> cookie list" where
  "claimed_first_wins seen [] = []"
| "claimed_first_wins seen (c # cs) =
     (if claimed_key c \<in> set seen then claimed_first_wins seen cs
      else c\<lparr>path := Some (snd (snd (claimed_key c)))\<rparr>
             # claimed_first_wins (claimed_key c # seen) cs)"

definition claimed_merged_cookies :: "(string \<times> snapshot option) list \<Rightarrow> cookie list" where
  "claimed_merged_cookies dir = claimed_first_wins [] (scanned_cookies dir)"

section \<open>The page store\<close>

text \<open>\<^verbatim>\<open>urlObj.pathname.replace(/[^a-zA-Z0-9.-]/g, '_')\<close> (line 415).\<close>

definition is_alnum :: "char \<Rightarrow> bool" where
  "is_alnum c =
     (let n = (of_char c :: nat)
      in (97 \<le> n \<and> n \<le> 122) \<or> (65 \<le> n \<and> n \<le> 90) \<or> (48 \<le> n \<and> n \<le> 57))"

definition sanitize_char :: "char \<Rightarrow> char" where
  "sanitize_char c = (if is_alnum c \<or> c = CHR ''.'' \<or> c = CHR ''-'' then c else CHR ''_'')"

definition sanitize_pathname :: "string \<Rightarrow> string" where
  "sanitize_pathname p = map sanitize_char p"

text \<open>\<^verbatim>\<open>new Date().toISOString().replace(/[:.]/g, '-').split('T')[0]\<close> (line 416), from the
  ISO string \<open>isoString\<close> of the current time.\<close>

definition timestamp_of :: "string \<Rightarrow> string" where
  "timestamp_of isoString =
     takeWhile (\<lambda>c. c \<noteq> CHR ''T'')
       (map (\<lambda>c. if c = CHR '':'' \<or> c = CHR ''.'' then CHR ''-'' else c) isoString)"

text \<open>\<^verbatim>\<open>`${domain}${pathname}_${timestamp}${statusSuffix}.md`\<close> (lines 414-418).\<close>

definition page_filename :: "url \<Rightarrow> string \<Rightarrow> bool \<Rightarrow> string" where
  "page_filename urlObj isoString isError =
     hostname urlObj @ sanitize_pathname (pathname urlObj) @ ''_'' @ timestamp_of isoString
       @ (if isError then ''_ERROR'' else '''') @ ''.md''"

text \<open>The files of the pages directory, by path, and whether writing there fails
  (\<^verbatim>\<open>mkdirSync\<close> or \<^verbatim>\<open>writeFileSync\<close> throws).\<close>

record filesystem =
  files :: "(string \<times> string) list"
  read_only :: bool

definition writeFileSync :: "filesystem \<Rightarrow> string \<Rightarrow> string \<Rightarrow> filesystem option" where
  "writeFileSync fs p textContent =
     (if read_only fs then None else Some (fs\<lparr>files := obj_set p textContent (files fs)\<rparr>))"

text \<open>\<^verbatim>\<open>savePageContent\<close> (lines 405-430): the path written, or \<open>None\<close> for \<^verbatim>\<open>null\<close>, and the
  file system afterwards. \<open>PAGES_DIR\<close> and \<open>isoString\<close> (the clock) are parameters;
  \<^verbatim>\<open>path.join(PAGES_DIR, filename)\<close> puts one separator between the two, the file name
  holding none.\<close>

definition savePageContent ::
  "(string \<Rightarrow> url option) \<Rightarrow> string \<Rightarrow> string \<Rightarrow> filesystem \<Rightarrow> string \<Rightarrow> string \<Rightarrow> string \<Rightarrow> bool
     \<Rightarrow> string option \<times> filesystem" where
  "savePageContent parseURL PAGES_DIR isoString fs u content title isError =
     (case parseURL u of
        None \<Rightarrow> (None, fs)
      | Some urlObj \<Rightarrow>
          (let filePath = PAGES_DIR @ ''/'' @ page_filename urlObj isoString isError
           in case writeFileSync fs filePath content of
                None \<Rightarrow> (None, fs)
              | Some fs' \<Rightarrow> (Some filePath, fs')))"

section \<open>The output document\<close>

text \<open>\<^verbatim>\<open>.replace(/\r?\n/g, ' ')\<close> and \<^verbatim>\<open>toYamlPlainString\<close> (lines 432-434).\<close>

fun replace_newlines :: "string \<Rightarrow> string" where
  "replace_newlines [] = []"
| "replace_newlines [c] = (if c = nl then '' '' else [c])"
| "replace_newlines (c # d # cs) =
     (if c = CHR 0x0D \<and> d = nl then CHR '' '' # replace_newlines cs
      else if c = nl then CHR '' '' # replace_newlines (d # cs)
      else c # replace_newlines (d # cs))"

definition toYamlPlainString :: "string \<Rightarrow> string" where
  "toYamlPlainString v = trim (replace_newlines v)"

text \<open>\<^verbatim>\<open>Array.isArray(domainRule.blockedIfContains) ? domainRule.blockedIfContains : []\<close>
  (line 851): only a rule object has the field.\<close>

fun rule_markers :: "js_value \<Rightarrow> string list" where
  "rule_markers (RuleObj r) = blockedIfContains r"
| "rule_markers v = []"

text \<open>\<^verbatim>\<open>needsLoginState\<close> (lines 852-853); \<open>content\<close> is the raw HTML of the page.\<close>

definition needsLoginState :: "js_value \<Rightarrow> string \<Rightarrow> bool" where
  "needsLoginState domainRule content =
     list_ex (\<lambda>marker. str_includes (toLowerCase content) (toLowerCase marker))
       (rule_markers domainRule)"

text \<open>\<^verbatim>\<open>yamlLines\<close> (lines 857-868). The sentence of the notice (line 866) lies outside
  Latin-1 and is the parameter \<open>notice\<close>.\<close>

definition yamlLines :: "string \<Rightarrow> string \<Rightarrow> string \<Rightarrow> string \<Rightarrow> bool \<Rightarrow> string list" where
  "yamlLines notice title u finalUrl shouldShowCookieExpiredTips =
     [''---'', ''title: '' @ toYamlPlainString title, ''start_url: '' @ toYamlPlainString u]
     @ (if finalUrl \<noteq> [] \<and> finalUrl \<noteq> u then [''final_url: '' @ toYamlPlainString finalUrl] else [])
     @ (if shouldShowCookieExpiredTips
        then [''cookie_expired_tips: '' @ toYamlPlainString notice] else [])
     @ [''---'', '''', '''']"

text \<open>\<^verbatim>\<open>yamlLines.join('\n')\<close>.\<close>

fun join_lines :: "string list \<Rightarrow> string" where
  "join_lines [] = []"
| "join_lines [l] = l"
| "join_lines (l # ls) = l @ [nl] @ join_lines ls"

text \<open>Lines 849-871 of \<^verbatim>\<open>handleFetchSpaWithCookies\<close>: from the rule of the URL, the raw HTML
  \<open>content\<close>, the title and the converted body to the front matter and the document.\<close>

definition front_matter ::
  "(string \<Rightarrow> url option) \<Rightarrow> rule_table \<Rightarrow> string \<Rightarrow> string \<Rightarrow> string \<Rightarrow> string \<Rightarrow> string \<Rightarrow> string list" where
  "front_matter parseURL domainRules notice u title finalUrl content =
     yamlLines notice title u finalUrl
       (needsLoginState (getDomainRuleForUrl parseURL domainRules u) content)"

definition textContent_of ::
  "(string \<Rightarrow> url option) \<Rightarrow> rule_table \<Rightarrow> string \<Rightarrow> string \<Rightarrow> string \<Rightarrow> string \<Rightarrow> string \<Rightarrow> string \<Rightarrow> string" where
  "textContent_of parseURL domainRules notice u title finalUrl content bodyText =
     join_lines (front_matter parseURL domainRules notice u title finalUrl content)
       @ compressBlankLines bodyText"

section \<open>Readings of the specification\<close>

text \<open>The file name as the specification words it: every character of the path that is
  not a letter or a digit becomes an underscore.\<close>

definition claimed_sanitize_pathname :: "string \<Rightarrow> string" where
  "claimed_sanitize_pathname p = map (\<lambda>c. if is_alnum c then c else CHR ''_'') p"

definition claimed_page_filename :: "url \<Rightarrow> string \<Rightarrow> bool \<Rightarrow> string" where
  "claimed_page_filename urlObj isoString isError =
     hostname urlObj @ claimed_sanitize_pathname (pathname urlObj) @ ''_'' @ timestamp_of isoString
       @ (if isError then ''_ERROR'' else '''') @ ''.md''"

section \<open>Inputs for the example of the notice\<close>

definition example_parseURL :: "string \<Rightarrow> url option" where
  "example_parseURL u =
     (if u = ''https://example.com/'' then Some \<lparr>hostname = ''example.com'', pathname = ''/''\<rparr>
      else None)"

definition example_marker :: string where
  "example_marker = ''Please LOGIN''"

definition example_rules :: rule_table where
  "example_rules =
     normalizeDomainRules
       (JObj [(''example.com'', JObj [(''blocked_if_contains'', JArr [JStr example_marker])])])"

definition example_rule :: domain_rule where
  "example_rule = \<lparr>selector = None, blockedIfContains = [example_marker]\<rparr>"

definition example_url :: string where
  "example_url = ''https://example.com/''"

definition example_login_page :: string where
  "example_login_page = ''<p>please Login</p>''"

definition example_plain_page :: string where
  "example_plain_page = ''<p>welcome back</p>''"

definition example_notice :: string where
  "example_notice = ''re-save the login state''"

chapter \<open>Properties\<close>

section \<open>Objects as lists of properties\<close>

lemma map_of_obj_set: "map_of (obj_set k v kvs) = (map_of kvs)(k \<mapsto> v)"
  by (induction kvs) (auto simp: fun_eq_iff)

lemma length_obj_set:
  "map_of kvs k \<noteq> None \<Longrightarrow> length (obj_set k v kvs) = length kvs"
  by (induction kvs) (auto split: if_splits)

lemma obj_set_not_Nil: "obj_set k v kvs \<noteq> []"
  by (cases kvs) (auto split: if_splits)

section \<open>The merge of the credential files\<close>

subsection \<open>Cookies\<close>

lemma key_of_with_path [simp]: "key_of (with_path c) = key_of c"
  by (simp add: key_of_def with_path_def pathVal_of_def split: option.splits)

lemma valid_with_path [simp]: "valid_cookie (with_path c) = valid_cookie c"
  by (simp add: valid_cookie_def with_path_def)

lemma merge_cookie_eq:
  "merge_cookie st c =
     (if valid_cookie c \<and> key_of c \<notin> seenKeys st
      then st\<lparr>acc_cookies := acc_cookies st @ [with_path c],
              seenKeys := insert (key_of c) (seenKeys st)\<rparr>
      else st)"
  by (simp add: merge_cookie_def valid_cookie_def key_of_def with_path_def Let_def)

lemma foldl_merge_cookie:
  "foldl merge_cookie st cs =
     st\<lparr>acc_cookies := acc_cookies st @ first_wins (seenKeys st) cs,
        seenKeys := seenKeys st \<union> key_of ` {c \<in> set cs. valid_cookie c}\<rparr>"
proof (induction cs arbitrary: st)
  case Nil
  then show ?case by simp
next
  case (Cons c cs)
  have step: "foldl merge_cookie st (c # cs) = foldl merge_cookie (merge_cookie st c) cs"
    by simp
  show ?case
  proof (cases "valid_cookie c \<and> key_of c \<notin> seenKeys st")
    case True
    then have m: "merge_cookie st c = st\<lparr>acc_cookies := acc_cookies st @ [with_path c],
              seenKeys := insert (key_of c) (seenKeys st)\<rparr>"
      by (simp add: merge_cookie_eq)
    have s: "insert (key_of c) (seenKeys st) \<union> key_of ` {c \<in> set cs. valid_cookie c}
          = seenKeys st \<union> key_of ` {x \<in> set (c # cs). valid_cookie x}"
      using True by auto
    show ?thesis
      unfolding step Cons.IH[of "merge_cookie st c"] unfolding m using True s by simp
  next
    case False
    then have m: "merge_cookie st c = st"
      by (auto simp: merge_cookie_eq)
    have s: "seenKeys st \<union> key_of ` {c \<in> set cs. valid_cookie c}
          = seenKeys st \<union> key_of ` {x \<in> set (c # cs). valid_cookie x}"
      using False by auto
    show ?thesis
      unfolding step Cons.IH[of "merge_cookie st c"] unfolding m using False s by auto
  qed
qed

lemma first_wins_append:
  "first_wins seen (xs @ ys) =
     first_wins seen xs @ first_wins (seen \<union> key_of ` {c \<in> set xs. valid_cookie c}) ys"
proof (induction xs arbitrary: seen)
  case Nil
  then show ?case by simp
next
  case (Cons x xs)
  have "insert (key_of x) seen \<union> key_of ` {c \<in> set xs. valid_cookie c}
        = seen \<union> key_of ` {c \<in> set (x # xs). valid_cookie c}" if "valid_cookie x"
    using that by auto
  moreover have "seen \<union> key_of ` {c \<in> set xs. valid_cookie c}
        = seen \<union> key_of ` {c \<in> set (x # xs). valid_cookie c}" if "\<not> valid_cookie x \<or> key_of x \<in> seen"
    using that by auto
  ultimately show ?case by (simp add: Cons.IH)
qed

lemma first_wins_keys:
  "key_of ` set (first_wins seen cs) = key_of ` {c \<in> set cs. valid_cookie c} - seen"
  by (induction cs arbitrary: seen) auto

lemma first_wins_distinct: "distinct (map key_of (first_wins seen cs))"
proof (induction cs arbitrary: seen)
  case Nil
  then show ?case by simp
next
  case (Cons c cs)
  have "key_of c \<notin> key_of ` set (first_wins (insert (key_of c) seen) cs)"
    by (simp add: first_wins_keys)
  then show ?case by (simp add: Cons.IH)
qed

lemma first_wins_first:
  "c' \<in> set (first_wins seen cs) \<Longrightarrow>
   \<exists>e. find (\<lambda>e. valid_cookie e \<and> key_of e = key_of c') cs = Some e \<and> c' = with_path e"
proof (induction cs arbitrary: seen)
  case Nil
  then show ?case by simp
next
  case (Cons c cs)
  show ?case
  proof (cases "valid_cookie c \<and> key_of c \<notin> seen")
    case True
    show ?thesis
    proof (cases "c' = with_path c")
      case True
      then show ?thesis using \<open>valid_cookie c \<and> key_of c \<notin> seen\<close> by simp
    next
      case False
      then have in_rest: "c' \<in> set (first_wins (insert (key_of c) seen) cs)"
        using Cons.prems True by simp
      then have "key_of c' \<in> key_of ` set (first_wins (insert (key_of c) seen) cs)" by blast
      then have "key_of c' \<noteq> key_of c" by (auto simp: first_wins_keys)
      then show ?thesis using Cons.IH[OF in_rest] by simp
    qed
  next
    case False
    then have in_rest: "c' \<in> set (first_wins seen cs)" using Cons.prems by auto
    then have "key_of c' \<in> key_of ` set (first_wins seen cs)" by blast
    then have "key_of c' \<notin> seen" by (auto simp: first_wins_keys)
    then have "\<not> (valid_cookie c \<and> key_of c = key_of c')" using False by auto
    then show ?thesis using Cons.IH[OF in_rest] by auto
  qed
qed

lemma merge_localStorage_fields:
  "acc_cookies (merge_localStorage st d ls) = acc_cookies st"
  "seenKeys (merge_localStorage st d ls) = seenKeys st"
  "acc_localStorage (merge_localStorage st d ls) = assign_bucket (acc_localStorage st) d ls"
  "inherited_writes (merge_localStorage st d ls) =
     (if read_bucket (acc_localStorage st) d = InheritedMember
      then inherited_writes st @ [(d, ls)] else inherited_writes st)"
  by (simp_all add: merge_localStorage_def assign_bucket_def split: bucket_read.splits)

lemma assign_bucket_eq:
  "assign_bucket L d ls =
     (case map_of L d of
        Some bucket \<Rightarrow> obj_set d (object_assign bucket ls) L
      | None \<Rightarrow> if d \<in> set object_prototype_names then L else obj_set d (object_assign [] ls) L)"
  by (simp add: assign_bucket_def merge_localStorage_def read_bucket_def split: option.splits)

lemma merge_file_cookies:
  "acc_cookies (merge_file st f) = acc_cookies st @ first_wins (seenKeys st) (file_cookies f)"
  "seenKeys (merge_file st f) = seenKeys st \<union> key_of ` {c \<in> set (file_cookies f). valid_cookie c}"
  by (cases f; cases "snd f";
      simp add: file_cookies_def foldl_merge_cookie merge_localStorage_fields Let_def
        split: option.splits)+

lemma foldl_merge_file_cookies:
  "acc_cookies (foldl merge_file st fs)
     = acc_cookies st @ first_wins (seenKeys st) (concat (map file_cookies fs))
   \<and> seenKeys (foldl merge_file st fs)
     = seenKeys st \<union> key_of ` {c \<in> set (concat (map file_cookies fs)). valid_cookie c}"
proof (induction fs arbitrary: st)
  case Nil
  then show ?case by simp
next
  case (Cons f fs)
  have u: "seenKeys st \<union> key_of ` {c \<in> set (file_cookies f). valid_cookie c}
            \<union> key_of ` {c \<in> set (concat (map file_cookies fs)). valid_cookie c}
         = seenKeys st \<union> key_of ` {c \<in> set (concat (map file_cookies (f # fs))). valid_cookie c}"
    by auto
  show ?case
    using Cons.IH[of "merge_file st f"] u
    by (simp add: merge_file_cookies first_wins_append)
qed

lemma merged_cookies_eq:
  "loadAndMergeAllCookies env dir = (Inr (Some m), env') \<Longrightarrow>
   merged_cookies m = first_wins {} (scanned_cookies dir)"
  by (auto simp: loadAndMergeAllCookies_def Let_def init_state_def scanned_cookies_def
      foldl_merge_file_cookies split: if_splits)

subsection \<open>localStorage\<close>

lemma object_assign_snoc:
  "object_assign t (s @ [x]) = assign_property (object_assign t s) x"
  by (simp add: object_assign_def)

lemma map_of_object_assign:
  "map_of (object_assign t s) k =
     (if k = ''__proto__'' then map_of t k
      else case map_of (rev s) k of Some v \<Rightarrow> Some v | None \<Rightarrow> map_of t k)"
proof (induction s rule: rev_induct)
  case Nil
  then show ?case by (simp add: object_assign_def)
next
  case (snoc x s)
  obtain k' v' where x: "x = (k', v')" by (cases x)
  show ?case
    unfolding object_assign_snoc x using snoc.IH
    by (auto simp: map_of_obj_set)
qed

lemma map_of_rev_distinct:
  "distinct (map fst s) \<Longrightarrow> map_of (rev s) = map_of s"
  by (rule map_of_inject_set[THEN iffD2]) (simp_all add: distinct_rev rev_map[symmetric])

lemma map_of_assign_bucket_other:
  "d' \<noteq> d \<Longrightarrow> map_of (assign_bucket L d ls) d' = map_of L d'"
  by (simp add: assign_bucket_eq map_of_obj_set split: option.splits)

lemma map_of_assign_bucket_same:
  "d \<notin> set object_prototype_names \<Longrightarrow>
   map_of (assign_bucket L d ls) d
     = Some (object_assign (case map_of L d of None \<Rightarrow> [] | Some b \<Rightarrow> b) ls)"
  by (simp add: assign_bucket_eq map_of_obj_set split: option.splits)

lemma merge_file_localStorage:
  "acc_localStorage (merge_file st f) =
     (case snd f of
        None \<Rightarrow> acc_localStorage st
      | Some data \<Rightarrow>
          (case localStorage data of
             None \<Rightarrow> acc_localStorage st
           | Some ls \<Rightarrow>
               (case sourceDomain_of (fst f) of
                  None \<Rightarrow> acc_localStorage st
                | Some d \<Rightarrow> if d = [] then acc_localStorage st
                            else assign_bucket (acc_localStorage st) d ls)))"
  by (cases f; cases "snd f";
      simp add: foldl_merge_cookie merge_localStorage_fields Let_def split: option.splits)

lemma match_filename_test: "match_filename s = Some p \<Longrightarrow> test_cookie_file s"
  by (induction s arbitrary: p) (auto split: if_splits)

lemma sourceDomain_test: "sourceDomain_of fn = Some d \<Longrightarrow> test_cookie_file fn"
  by (auto simp: sourceDomain_of_def match_filename_test split: option.splits if_splits)

lemma bucket_value_untouched:
  assumes "\<not> file_has_key f d k" and "test_cookie_file (fst f)"
  shows "bucket_value (acc_localStorage (merge_file st f)) d k
         = bucket_value (acc_localStorage st) d k"
proof (cases "snd f")
  case None
  then show ?thesis by (simp add: merge_file_localStorage)
next
  case (Some data)
  show ?thesis
  proof (cases "localStorage data")
    case None
    then show ?thesis using Some by (simp add: merge_file_localStorage)
  next
    case ls: (Some ls)
    show ?thesis
    proof (cases "sourceDomain_of (fst f)")
      case None
      then show ?thesis using Some ls by (simp add: merge_file_localStorage)
    next
      case d': (Some d')
      show ?thesis
      proof (cases "d' = d")
        case False
        then show ?thesis using Some ls d'
          by (simp add: merge_file_localStorage bucket_value_def map_of_assign_bucket_other)
      next
        case True
        then have nk: "k \<notin> fst ` set ls"
          using assms Some ls d' by (simp add: file_has_key_def file_localStorage_def)
        then have "map_of (rev ls) k = None"
          by (simp add: map_of_eq_None_iff)
        then have oa: "map_of (object_assign t ls) k = map_of t k" for t
          by (simp add: map_of_object_assign)
        show ?thesis
          using Some ls d' True oa
          by (auto simp: merge_file_localStorage bucket_value_def assign_bucket_eq
              map_of_obj_set split: option.splits)
      qed
    qed
  qed
qed

lemma bucket_value_untouched_fold:
  "list_all (\<lambda>f. test_cookie_file (fst f) \<and> \<not> file_has_key f d k) fs \<Longrightarrow>
   bucket_value (acc_localStorage (foldl merge_file st fs)) d k
     = bucket_value (acc_localStorage st) d k"
  by (induction fs arbitrary: st) (simp_all add: bucket_value_untouched)

lemma bucket_value_written:
  assumes "snd f = Some data" and "localStorage data = Some ls"
    and "sourceDomain_of (fst f) = Some d" and "d \<noteq> []" and "d \<notin> set object_prototype_names"
    and "distinct (map fst ls)" and "(k, v) \<in> set ls" and "k \<noteq> ''__proto__''"
  shows "bucket_value (acc_localStorage (merge_file st f)) d k = Some v"
proof -
  have "map_of (rev ls) k = Some v"
    using assms(6,7) by (simp add: map_of_rev_distinct)
  then have "map_of (object_assign t ls) k = Some v" for t
    using assms(8) by (simp add: map_of_object_assign)
  then show ?thesis
    using assms(1-5)
    by (simp add: merge_file_localStorage bucket_value_def map_of_assign_bucket_same)
qed

lemma acc_localStorage_nonempty:
  "bucket_value (acc_localStorage st) d k = Some v \<Longrightarrow> acc_localStorage st \<noteq> []"
  by (auto simp: bucket_value_def)

lemma map_of_object_assign_origin:
  "map_of (object_assign t s) k = Some v \<Longrightarrow> map_of t k = Some v \<or> (k, v) \<in> set s"
  by (auto simp: map_of_object_assign dest: map_of_SomeD split: if_splits option.splits)

lemma bucket_value_origin_step:
  assumes "bucket_value (acc_localStorage (merge_file st f)) d k = Some v"
    and "test_cookie_file (fst f)"
  shows "bucket_value (acc_localStorage st) d k = Some v
         \<or> (\<exists>ls. file_localStorage f d = Some ls \<and> (k, v) \<in> set ls)"
proof (cases "file_has_key f d k")
  case False
  then show ?thesis using assms by (simp add: bucket_value_untouched)
next
  case True
  then obtain data ls where f: "snd f = Some data" "localStorage data = Some ls"
      "sourceDomain_of (fst f) = Some d" and fl: "file_localStorage f d = Some ls"
    by (auto simp: file_has_key_def file_localStorage_def split: option.splits if_splits)
  show ?thesis
  proof (cases "d = []")
    case True
    then show ?thesis using assms f by (simp add: merge_file_localStorage)
  next
    case False
    then have "acc_localStorage (merge_file st f) = assign_bucket (acc_localStorage st) d ls"
      using f by (simp add: merge_file_localStorage)
    then have "bucket_value (assign_bucket (acc_localStorage st) d ls) d k = Some v"
      using assms(1) by simp
    then have "bucket_value (acc_localStorage st) d k = Some v \<or> (k, v) \<in> set ls"
      by (auto simp: bucket_value_def assign_bucket_eq map_of_obj_set
          dest!: map_of_object_assign_origin split: option.splits if_splits)
    then show ?thesis using fl by blast
  qed
qed

lemma bucket_value_origin_fold:
  "bucket_value (acc_localStorage (foldl merge_file st fs)) d k = Some v \<Longrightarrow>
   list_all (\<lambda>f. test_cookie_file (fst f)) fs \<Longrightarrow>
   bucket_value (acc_localStorage st) d k = Some v
   \<or> (\<exists>f \<in> set fs. \<exists>ls. file_localStorage f d = Some ls \<and> (k, v) \<in> set ls)"
proof (induction fs arbitrary: st)
  case Nil
  then show ?case by simp
next
  case (Cons f fs)
  from Cons.IH[of "merge_file st f"] Cons.prems
  have "bucket_value (acc_localStorage (merge_file st f)) d k = Some v
        \<or> (\<exists>f \<in> set fs. \<exists>ls. file_localStorage f d = Some ls \<and> (k, v) \<in> set ls)"
    by simp
  then show ?case
    using bucket_value_origin_step[of st f d k v] Cons.prems(2) by auto
qed

lemma localStorage_grouped_by_domain:
  assumes "loadAndMergeAllCookies env dir = (Inr (Some m), env')"
    and "map_of (localStorageByDomain m) d = Some b" and "map_of b k = Some v"
  shows "\<exists>f \<in> set dir. \<exists>ls. file_localStorage f d = Some ls \<and> (k, v) \<in> set ls"
proof -
  have m: "localStorageByDomain m = acc_localStorage (foldl merge_file init_state (listAllCookieFiles dir))"
    using assms(1) by (auto simp: loadAndMergeAllCookies_def Let_def split: if_splits)
  have "bucket_value (acc_localStorage (foldl merge_file init_state (listAllCookieFiles dir))) d k = Some v"
    using assms(2,3) unfolding m[symmetric] by (simp add: bucket_value_def)
  moreover have "list_all (\<lambda>f. test_cookie_file (fst f)) (listAllCookieFiles dir)"
    by (simp add: listAllCookieFiles_def list_all_iff)
  ultimately have "\<exists>f \<in> set (listAllCookieFiles dir). \<exists>ls. file_localStorage f d = Some ls \<and> (k, v) \<in> set ls"
    using bucket_value_origin_fold[of init_state "listAllCookieFiles dir" d k v]
    by (auto simp: bucket_value_def init_state_def)
  then show ?thesis by (auto simp: listAllCookieFiles_def)
qed

lemma first_wins_Nil_iff: "first_wins {} cs = [] \<longleftrightarrow> \<not> list_ex valid_cookie cs"
proof -
  have "first_wins {} cs = [] \<longleftrightarrow> key_of ` set (first_wins {} cs) = {}" by simp
  also have "\<dots> \<longleftrightarrow> \<not> list_ex valid_cookie cs"
    unfolding first_wins_keys by (auto simp: list_ex_iff)
  finally show ?thesis .
qed

lemma assign_bucket_Nil_iff:
  "assign_bucket L d ls = [] \<longleftrightarrow> L = [] \<and> d \<in> set object_prototype_names"
  by (cases L) (auto simp: assign_bucket_eq obj_set_not_Nil split: option.splits)

lemma merge_file_localStorage_Nil_iff:
  "acc_localStorage (merge_file st f) = [] \<longleftrightarrow>
     acc_localStorage st = [] \<and> \<not> (has_localStorage f \<and> \<not> inherited_domain f)"
  by (auto simp: merge_file_localStorage has_localStorage_def inherited_domain_def
      assign_bucket_Nil_iff split: option.splits)

lemma foldl_merge_file_localStorage_Nil_iff:
  "acc_localStorage (foldl merge_file st fs) = [] \<longleftrightarrow>
     acc_localStorage st = [] \<and> list_all (\<lambda>f. \<not> (has_localStorage f \<and> \<not> inherited_domain f)) fs"
  by (induction fs arbitrary: st) (auto simp: merge_file_localStorage_Nil_iff)

lemma list_ex_concat: "list_ex P (concat xss) \<longleftrightarrow> list_ex (list_ex P) xss"
  by (auto simp: list_ex_iff)

lemma read_bucket_inherited:
  "read_bucket L d = InheritedMember \<Longrightarrow> d \<in> set object_prototype_names"
  by (auto simp: read_bucket_def split: option.splits if_splits)

lemma merge_file_writes:
  "\<not> inherited_domain f \<Longrightarrow> inherited_writes (merge_file st f) = inherited_writes st"
  by (cases f; cases "snd f")
     (auto simp: foldl_merge_cookie merge_localStorage_fields inherited_domain_def Let_def
       dest: read_bucket_inherited split: option.splits)

lemma foldl_merge_file_writes:
  "list_all (\<lambda>f. \<not> inherited_domain f) fs \<Longrightarrow>
   inherited_writes (foldl merge_file st fs) = inherited_writes st"
  by (induction fs arbitrary: st) (simp_all add: merge_file_writes)

text \<open>Where no file of the scan has an inherited name as its source domain, the call
  stays in the model and leaves the built-in objects as they were.\<close>

lemma loadAndMergeAllCookies_in_model:
  assumes "list_all (\<lambda>f. \<not> inherited_domain f) (listAllCookieFiles dir)"
  shows "loadAndMergeAllCookies [] dir =
     (Inr (let st = foldl merge_file init_state (listAllCookieFiles dir)
           in if acc_cookies st = [] \<and> acc_localStorage st = [] then None
              else Some \<lparr>merged_cookies = acc_cookies st,
                         localStorageByDomain = acc_localStorage st\<rparr>), [])"
proof -
  have "inherited_writes (foldl merge_file init_state (listAllCookieFiles dir)) = []"
    using foldl_merge_file_writes[OF assms, of init_state] by (simp add: init_state_def)
  then show ?thesis
    by (cases "listAllCookieFiles dir = []")
       (simp_all add: loadAndMergeAllCookies_def Let_def init_state_def)
qed

lemma loadAndMergeAllCookies_None_iff:
  assumes "list_all (\<lambda>f. \<not> inherited_domain f) (listAllCookieFiles dir)"
  shows "fst (loadAndMergeAllCookies [] dir) = Inr None \<longleftrightarrow>
     list_all (\<lambda>f. \<not> list_ex valid_cookie (file_cookies f) \<and> \<not> has_localStorage f)
       (listAllCookieFiles dir)"
proof -
  have c: "acc_cookies (foldl merge_file init_state (listAllCookieFiles dir)) = []
      \<longleftrightarrow> list_all (\<lambda>f. \<not> list_ex valid_cookie (file_cookies f)) (listAllCookieFiles dir)"
    by (simp add: foldl_merge_file_cookies init_state_def first_wins_Nil_iff list_ex_concat)
       (auto simp: list_ex_iff list_all_iff)
  have l: "acc_localStorage (foldl merge_file init_state (listAllCookieFiles dir)) = []
      \<longleftrightarrow> list_all (\<lambda>f. \<not> has_localStorage f) (listAllCookieFiles dir)"
    using assms
    by (simp add: foldl_merge_file_localStorage_Nil_iff init_state_def) (auto simp: list_all_iff)
  have "fst (loadAndMergeAllCookies [] dir) = Inr None \<longleftrightarrow>
      acc_cookies (foldl merge_file init_state (listAllCookieFiles dir)) = []
      \<and> acc_localStorage (foldl merge_file init_state (listAllCookieFiles dir)) = []"
    unfolding loadAndMergeAllCookies_in_model[OF assms] by (simp add: Let_def)
  then show ?thesis unfolding c l by (auto simp: list_all_iff)
qed

lemma merge_file_unparsed: "snd f = None \<Longrightarrow> merge_file st f = st"
  by (cases f) simp

lemma foldl_merge_file_parsed:
  "foldl merge_file st (filter (\<lambda>f. snd f \<noteq> None) fs) = foldl merge_file st fs"
  by (induction fs arbitrary: st) (simp_all add: merge_file_unparsed)

lemma loadAndMergeAllCookies_skips_unparsed:
  "loadAndMergeAllCookies env (filter (\<lambda>f. snd f \<noteq> None) dir) = loadAndMergeAllCookies env dir"
proof -
  let ?dir' = "filter (\<lambda>f. snd f \<noteq> None) dir"
  have fl: "listAllCookieFiles ?dir' = filter (\<lambda>f. snd f \<noteq> None) (listAllCookieFiles dir)"
    by (simp add: listAllCookieFiles_def conj_commute)
  have fo: "foldl merge_file init_state (listAllCookieFiles ?dir')
          = foldl merge_file init_state (listAllCookieFiles dir)"
    unfolding fl by (rule foldl_merge_file_parsed)
  show ?thesis
  proof (cases "listAllCookieFiles ?dir' = []")
    case False
    then have "listAllCookieFiles dir \<noteq> []" unfolding fl by auto
    then show ?thesis using False fo by (simp add: loadAndMergeAllCookies_def Let_def)
  next
    case True
    then have "foldl merge_file init_state (listAllCookieFiles dir) = init_state"
      using fo by simp
    then show ?thesis using True
      by (simp add: loadAndMergeAllCookies_def Let_def init_state_def)
  qed
qed


subsection \<open>Deduplication, override, null result and scan order\<close>

text \<open>
  The theorems of this subsection are about calls that write to no member that every
  object inherits: calls whose result is \<open>Inr\<close>, which is the case where no file of the
  scan has such a name as its source domain (\<open>loadAndMergeAllCookies_in_model\<close>).
\<close>

text \<open>
  Claim C1, as the code has it. Only the entries with a non-empty name, value and domain
  take part. Among them the merged cookies hold exactly one entry for every key string
  \<open>name|domain|path\<close> (a missing or empty path counting as \<open>/\<close>): the keys of the merged
  cookies are pairwise distinct, they are the keys of the valid entries of the scan, and
  every merged cookie is the first valid entry of its key in scan order, with its value,
  its path set to the defaulted path.
\<close>

theorem C1_cookie_dedup:
  assumes "loadAndMergeAllCookies env dir = (Inr (Some m), env')"
  shows "distinct (map key_of (merged_cookies m))
    \<and> key_of ` set (merged_cookies m) = key_of ` {c \<in> set (scanned_cookies dir). valid_cookie c}
    \<and> (\<forall>c \<in> set (merged_cookies m).
          \<exists>e. find (\<lambda>e. valid_cookie e \<and> key_of e = key_of c) (scanned_cookies dir) = Some e
             \<and> c = e\<lparr>path := Some (pathVal_of e)\<rparr>)"
  using merged_cookies_eq[OF assms] first_wins_first[of _ "{}" "scanned_cookies dir"]
  by (auto simp: first_wins_distinct first_wins_keys with_path_def)

theorem C1_cookie_dedup_witness:
  "loadAndMergeAllCookies []
     [example_file ''x.com_cookies.json'' [example_cookie ''a'' ''1'' ''x.com'' (Some ''/'')] [],
      example_file ''x.com_cookies (1).json'' [example_cookie ''a'' ''2'' ''x.com'' None] []]
   = (Inr (Some \<lparr>merged_cookies = [example_cookie ''a'' ''1'' ''x.com'' (Some ''/'')],
           localStorageByDomain = [(''x.com'', [])]\<rparr>), [])
   \<and> distinct (map key_of [example_cookie ''a'' ''1'' ''x.com'' (Some ''/'')])
   \<and> (\<exists>e. find (\<lambda>e. valid_cookie e
                    \<and> key_of e = key_of (example_cookie ''a'' ''1'' ''x.com'' (Some ''/'')))
             (scanned_cookies
               [example_file ''x.com_cookies.json'' [example_cookie ''a'' ''1'' ''x.com'' (Some ''/'')] [],
                example_file ''x.com_cookies (1).json'' [example_cookie ''a'' ''2'' ''x.com'' None] []])
           = Some e
         \<and> example_cookie ''a'' ''1'' ''x.com'' (Some ''/'') = e\<lparr>path := Some (pathVal_of e)\<rparr>)"
proof -
  have l: "loadAndMergeAllCookies []
     [example_file ''x.com_cookies.json'' [example_cookie ''a'' ''1'' ''x.com'' (Some ''/'')] [],
      example_file ''x.com_cookies (1).json'' [example_cookie ''a'' ''2'' ''x.com'' None] []]
   = (Inr (Some \<lparr>merged_cookies = [example_cookie ''a'' ''1'' ''x.com'' (Some ''/'')],
           localStorageByDomain = [(''x.com'', [])]\<rparr>), [])"
    by code_simp
  from C1_cookie_dedup[OF l] l show ?thesis by simp
qed

text \<open>
  The claim as worded keeps the first entry of every key. An entry with an empty value
  does not pass the guard of line 196, so where the first file has the cookie with an
  empty value and the second file has it with a value, the merge keeps the later entry.
\<close>

theorem C1_counterexample:
  "map_sum id (map_option merged_cookies)
     (fst (loadAndMergeAllCookies []
       [example_file ''x.com_cookies.json'' [example_cookie ''a'' [] ''x.com'' (Some ''/'')] [],
        example_file ''x.com_cookies (1).json'' [example_cookie ''a'' ''2'' ''x.com'' (Some ''/'')] []]))
   \<noteq> Inr (Some (claimed_merged_cookies
       [example_file ''x.com_cookies.json'' [example_cookie ''a'' [] ''x.com'' (Some ''/'')] [],
        example_file ''x.com_cookies (1).json'' [example_cookie ''a'' ''2'' ''x.com'' (Some ''/'')] []]))
   \<and> fst (loadAndMergeAllCookies []
       [example_file ''x.com_cookies.json'' [example_cookie ''a'' [] ''x.com'' (Some ''/'')] [],
        example_file ''x.com_cookies (1).json'' [example_cookie ''a'' ''2'' ''x.com'' (Some ''/'')] []])
     = Inr (Some \<lparr>merged_cookies = [example_cookie ''a'' ''2'' ''x.com'' (Some ''/'')],
                 localStorageByDomain = [(''x.com'', [])]\<rparr>)"
  by code_simp

lemma inherited_domain_names:
  "sourceDomain_of (fst f) = Some d \<Longrightarrow> d \<notin> set object_prototype_names \<Longrightarrow> \<not> inherited_domain f"
  by (simp add: inherited_domain_def)

lemma localStorage_last_wins:
  assumes "sourceDomain_of fn = Some d" and "d \<noteq> []" and "d \<notin> set object_prototype_names"
    and "localStorage data = Some ls" and "distinct (map fst ls)" and "(k, v) \<in> set ls"
    and "k \<noteq> ''__proto__''"
    and "list_all (\<lambda>f. \<not> file_has_key f d k) later"
    and "list_all (\<lambda>f. \<not> inherited_domain f) (earlier @ later)"
  shows "\<exists>m b. loadAndMergeAllCookies [] (earlier @ [(fn, Some data)] @ later) = (Inr (Some m), [])
           \<and> map_of (localStorageByDomain m) d = Some b \<and> map_of b k = Some v"
proof -
  let ?f = "(fn, Some data)"
  let ?dir = "earlier @ [?f] @ later"
  have t: "test_cookie_file fn" using assms(1) by (rule sourceDomain_test)
  then have files: "listAllCookieFiles ?dir
      = listAllCookieFiles earlier @ ?f # listAllCookieFiles later"
    by (simp add: listAllCookieFiles_def)
  have nf: "\<not> inherited_domain ?f"
    using assms(1,3) by (intro inherited_domain_names[of _ d]) simp_all
  have H: "list_all (\<lambda>f. \<not> inherited_domain f) (listAllCookieFiles ?dir)"
    using assms(9) nf unfolding files by (auto simp: listAllCookieFiles_def list_all_iff)
  let ?st = "foldl merge_file init_state (listAllCookieFiles earlier)"
  have later: "list_all (\<lambda>f. test_cookie_file (fst f) \<and> \<not> file_has_key f d k)
                 (listAllCookieFiles later)"
    using assms(8) by (auto simp: listAllCookieFiles_def list_all_iff)
  have w: "bucket_value (acc_localStorage (merge_file ?st ?f)) d k = Some v"
    using assms(1-7) by (intro bucket_value_written[where data = data and ls = ls]) simp_all
  have fin: "bucket_value (acc_localStorage (foldl merge_file init_state (listAllCookieFiles ?dir))) d k
        = Some v"
    unfolding files using w bucket_value_untouched_fold[OF later] by simp
  then have ne: "acc_localStorage (foldl merge_file init_state (listAllCookieFiles ?dir)) \<noteq> []"
    by (rule acc_localStorage_nonempty)
  have "loadAndMergeAllCookies [] ?dir
      = (Inr (Some \<lparr>merged_cookies = acc_cookies (foldl merge_file init_state (listAllCookieFiles ?dir)),
              localStorageByDomain = acc_localStorage (foldl merge_file init_state (listAllCookieFiles ?dir))\<rparr>), [])"
    unfolding loadAndMergeAllCookies_in_model[OF H] using ne by (simp add: Let_def)
  then show ?thesis
    using fin by (auto simp: bucket_value_def split: option.splits)
qed

text \<open>
  Claim C2, as the code has it. For a source domain \<open>d\<close> that is not empty (and not a
  name that every object inherits) and a key \<open>k\<close> other than \<open>__proto__\<close>, in a scan
  with no file whose source domain is an inherited name: the value that the last file of
  the scan with source domain \<open>d\<close> and key \<open>k\<close> gives to \<open>k\<close> is the value of \<open>k\<close> in the
  bucket of \<open>d\<close>, whatever the files scanned earlier hold. And every value in the bucket
  of a domain comes from a file of the scan with that source domain.
\<close>

theorem C2_localStorage_last_wins:
  "(sourceDomain_of fn = Some d \<and> d \<noteq> [] \<and> d \<notin> set object_prototype_names
      \<and> localStorage data = Some ls \<and> distinct (map fst ls) \<and> (k, v) \<in> set ls
      \<and> k \<noteq> ''__proto__''
      \<and> list_all (\<lambda>f. \<not> file_has_key f d k) later
      \<and> list_all (\<lambda>f. \<not> inherited_domain f) (earlier @ later)
    \<longrightarrow> (\<exists>m b. loadAndMergeAllCookies [] (earlier @ [(fn, Some data)] @ later) = (Inr (Some m), [])
           \<and> map_of (localStorageByDomain m) d = Some b \<and> map_of b k = Some v))
   \<and> (loadAndMergeAllCookies env dir = (Inr (Some m'), env')
      \<and> map_of (localStorageByDomain m') d' = Some b' \<and> map_of b' k' = Some v'
    \<longrightarrow> (\<exists>f \<in> set dir. \<exists>ls'. file_localStorage f d' = Some ls' \<and> (k', v') \<in> set ls'))"
proof (intro conjI impI)
  assume h: "sourceDomain_of fn = Some d \<and> d \<noteq> [] \<and> d \<notin> set object_prototype_names
      \<and> localStorage data = Some ls \<and> distinct (map fst ls) \<and> (k, v) \<in> set ls
      \<and> k \<noteq> ''__proto__''
      \<and> list_all (\<lambda>f. \<not> file_has_key f d k) later
      \<and> list_all (\<lambda>f. \<not> inherited_domain f) (earlier @ later)"
  then show "\<exists>m b. loadAndMergeAllCookies [] (earlier @ [(fn, Some data)] @ later) = (Inr (Some m), [])
           \<and> map_of (localStorageByDomain m) d = Some b \<and> map_of b k = Some v"
    using localStorage_last_wins[of fn d data ls k v later earlier] by blast
next
  assume "loadAndMergeAllCookies env dir = (Inr (Some m'), env')
      \<and> map_of (localStorageByDomain m') d' = Some b' \<and> map_of b' k' = Some v'"
  then show "\<exists>f \<in> set dir. \<exists>ls'. file_localStorage f d' = Some ls' \<and> (k', v') \<in> set ls'"
    using localStorage_grouped_by_domain[of env dir m' env' d' b' k' v'] by blast
qed

theorem C2_localStorage_last_wins_witness:
  "sourceDomain_of ''www.x.com_cookies (1).json'' = Some ''x.com''
   \<and> list_all (\<lambda>f. \<not> inherited_domain f)
        ([example_file ''x.com_cookies.json'' [] [(''token'', ''old''), (''theme'', ''dark'')]] @ [])
   \<and> (\<exists>m b. loadAndMergeAllCookies []
            ([example_file ''x.com_cookies.json'' [] [(''token'', ''old''), (''theme'', ''dark'')]]
             @ [(''www.x.com_cookies (1).json'',
                 Some \<lparr>cookies = None, localStorage = Some [(''token'', ''new'')]\<rparr>)]
             @ []) = (Inr (Some m), [])
         \<and> map_of (localStorageByDomain m) ''x.com'' = Some b \<and> map_of b ''token'' = Some ''new'')"
proof -
  have s: "sourceDomain_of ''www.x.com_cookies (1).json'' = Some ''x.com''"
    by code_simp
  have n: "''x.com'' \<notin> set object_prototype_names"
    by (simp add: object_prototype_names_def)
  have h: "list_all (\<lambda>f. \<not> inherited_domain f)
        ([example_file ''x.com_cookies.json'' [] [(''token'', ''old''), (''theme'', ''dark'')]] @ [])"
    by code_simp
  have "\<exists>m b. loadAndMergeAllCookies []
            ([example_file ''x.com_cookies.json'' [] [(''token'', ''old''), (''theme'', ''dark'')]]
             @ [(''www.x.com_cookies (1).json'',
                 Some \<lparr>cookies = None, localStorage = Some [(''token'', ''new'')]\<rparr>)]
             @ []) = (Inr (Some m), [])
         \<and> map_of (localStorageByDomain m) ''x.com'' = Some b \<and> map_of b ''token'' = Some ''new''"
    using s n h C2_localStorage_last_wins [of "''www.x.com_cookies (1).json''" "''x.com''"
        "\<lparr>cookies = None, localStorage = Some [(''token'', ''new'')]\<rparr>" "[(''token'', ''new'')]"
        "''token''" "''new''" "[]"
        "[example_file ''x.com_cookies.json'' [] [(''token'', ''old''), (''theme'', ''dark'')]]"]
    by simp
  with s h show ?thesis by blast
qed

text \<open>
  The claim as worded holds for any two files of one derived domain. The guard of line
  205 requires a non-empty source domain: the two files below both derive the empty
  domain and both hold the key, and the merge stores neither value (it returns null).
\<close>

theorem C2_counterexample:
  "sourceDomain_of ''www._cookies.json'' = Some []
   \<and> sourceDomain_of ''www._cookies (1).json'' = Some []
   \<and> loadAndMergeAllCookies []
       [example_file ''www._cookies.json'' [] [(''token'', ''old'')],
        example_file ''www._cookies (1).json'' [] [(''token'', ''new'')]] = (Inr None, [])"
  by code_simp

text \<open>
  Claim C6, as the code has it. Where no file of the scan has a source domain that every
  object inherits: the merge returns null if and only if no file name matches, or no
  matching file has a cookie entry with a non-empty name, value and domain and no
  matching file that parses has a \<open>localStorage\<close> object together with a non-empty source
  domain (such a file opens a bucket even when its object is empty); otherwise it returns
  a merged set. Files that cannot be read or parsed change nothing: the merge of the
  listing without them is the merge of the listing.
\<close>

theorem C6_merge_null:
  assumes "list_all (\<lambda>f. \<not> inherited_domain f) (listAllCookieFiles dir)"
  shows "(fst (loadAndMergeAllCookies [] dir) = Inr None \<longleftrightarrow>
            listAllCookieFiles dir = []
          \<or> list_all (\<lambda>f. \<not> list_ex valid_cookie (file_cookies f) \<and> \<not> has_localStorage f)
               (listAllCookieFiles dir))
       \<and> (fst (loadAndMergeAllCookies [] dir) \<noteq> Inr None \<longleftrightarrow>
            (\<exists>m. fst (loadAndMergeAllCookies [] dir) = Inr (Some m)))
       \<and> loadAndMergeAllCookies [] (filter (\<lambda>f. snd f \<noteq> None) dir) = loadAndMergeAllCookies [] dir"
proof (intro conjI)
  show "fst (loadAndMergeAllCookies [] dir) = Inr None \<longleftrightarrow>
            listAllCookieFiles dir = []
          \<or> list_all (\<lambda>f. \<not> list_ex valid_cookie (file_cookies f) \<and> \<not> has_localStorage f)
               (listAllCookieFiles dir)"
    unfolding loadAndMergeAllCookies_None_iff[OF assms] by auto
next
  show "fst (loadAndMergeAllCookies [] dir) \<noteq> Inr None \<longleftrightarrow>
            (\<exists>m. fst (loadAndMergeAllCookies [] dir) = Inr (Some m))"
    unfolding loadAndMergeAllCookies_in_model[OF assms] by (simp add: Let_def)
next
  show "loadAndMergeAllCookies [] (filter (\<lambda>f. snd f \<noteq> None) dir) = loadAndMergeAllCookies [] dir"
    by (rule loadAndMergeAllCookies_skips_unparsed)
qed

theorem C6_merge_null_witness:
  "list_all (\<lambda>f. \<not> inherited_domain f)
     (listAllCookieFiles
        [(''broken_cookies.json'', None), (''notes.txt'', None),
         example_file ''x.com_cookies.json'' [example_cookie ''a'' ''1'' ''x.com'' None] []])
   \<and> fst (loadAndMergeAllCookies []
        [(''broken_cookies.json'', None), (''notes.txt'', None),
         example_file ''x.com_cookies.json'' [example_cookie ''a'' ''1'' ''x.com'' None] []]) \<noteq> Inr None
   \<and> (\<exists>m. fst (loadAndMergeAllCookies []
        [(''broken_cookies.json'', None), (''notes.txt'', None),
         example_file ''x.com_cookies.json'' [example_cookie ''a'' ''1'' ''x.com'' None] []])
         = Inr (Some m))
   \<and> loadAndMergeAllCookies []
        (filter (\<lambda>f. snd f \<noteq> None)
          [(''broken_cookies.json'', None), (''notes.txt'', None),
           example_file ''x.com_cookies.json'' [example_cookie ''a'' ''1'' ''x.com'' None] []])
     = loadAndMergeAllCookies []
        [(''broken_cookies.json'', None), (''notes.txt'', None),
         example_file ''x.com_cookies.json'' [example_cookie ''a'' ''1'' ''x.com'' None] []]"
proof -
  have h: "list_all (\<lambda>f. \<not> inherited_domain f)
     (listAllCookieFiles
        [(''broken_cookies.json'', None), (''notes.txt'', None),
         example_file ''x.com_cookies.json'' [example_cookie ''a'' ''1'' ''x.com'' None] []])"
    by code_simp
  have n: "fst (loadAndMergeAllCookies []
        [(''broken_cookies.json'', None), (''notes.txt'', None),
         example_file ''x.com_cookies.json'' [example_cookie ''a'' ''1'' ''x.com'' None] []]) \<noteq> Inr None"
    by code_simp
  from C6_merge_null[OF h] h n show ?thesis by blast
qed

text \<open>
  The claim as worded returns null when the files bring no cookie and no \<open>localStorage\<close>
  material. A file with no cookies and an empty \<open>localStorage\<close> object still opens the
  bucket of its domain, and the merge is not null.
\<close>

theorem C6_counterexample:
  "(fst (loadAndMergeAllCookies [] [example_file ''x.com_cookies.json'' [] []]) = Inr None)
   \<noteq> (listAllCookieFiles [example_file ''x.com_cookies.json'' [] []] = []
        \<or> list_all claimed_no_material
             (listAllCookieFiles [example_file ''x.com_cookies.json'' [] []]))"
  by code_simp




text \<open>A file whose source domain is \<open>__proto__\<close> makes the call write to
  \<^verbatim>\<open>Object.prototype\<close>: the call leaves the model, and so does every call after it.\<close>

lemma merge_leaves_model_example:
  "loadAndMergeAllCookies [] [example_file ''__proto___cookies.json'' [] [(''name'', ''n'')]]
     = (Inl InheritedMemberWritten, [(''__proto__'', [(''name'', ''n'')])])
   \<and> loadAndMergeAllCookies
        (snd (loadAndMergeAllCookies [] [example_file ''__proto___cookies.json'' [] [(''name'', ''n'')]]))
        [example_file ''__proto___cookies.json'' [] [(''name'', ''n'')]]
     = (Inl InheritedMemberWritten, [(''__proto__'', [(''name'', ''n'')])])"
  by code_simp

section \<open>Expiry of the cookies of a domain\<close>

lemma foldl_expiry_step:
  "foldl (expiry_step H now) (b, n) cs =
     (b \<or> (\<exists>c \<in> set cs. truthy_str (domain c) \<and> truthy_num (expirationDate c)
              \<and> (H = cookieDomain_of (the (domain c))
                    \<or> endsWith H (''.'' @ cookieDomain_of (the (domain c))))
              \<and> date_gt now (timeClip (the (expirationDate c) * 1000))),
      n + length (filter (\<lambda>c. truthy_str (domain c) \<and> truthy_num (expirationDate c)
              \<and> (H = cookieDomain_of (the (domain c))
                    \<or> endsWith H (''.'' @ cookieDomain_of (the (domain c))))) cs))"
proof (induction cs arbitrary: b n)
  case Nil
  then show ?case by simp
next
  case (Cons c cs)
  show ?case
    by (simp add: Cons.IH Let_def) blast
qed

lemma expiry_cookie_iff:
  "(truthy_str (domain c) \<and> truthy_num (expirationDate c)
      \<and> (H = cookieDomain_of (the (domain c))
            \<or> endsWith H (''.'' @ cookieDomain_of (the (domain c))))
      \<and> date_gt now (timeClip (the (expirationDate c) * 1000)))
   \<longleftrightarrow> (\<exists>d e.
         domain c = Some d \<and> d \<noteq> [] \<and> expirationDate c = Some e \<and> e \<noteq> 0
       \<and> (H = cookieDomain_of d \<or> endsWith H (''.'' @ cookieDomain_of d))
       \<and> \<bar>e * 1000\<bar> \<le> 8640000000000000 \<and> e * 1000 < now)"
  by (cases "domain c"; cases "expirationDate c")
     (auto simp: truthy_str_def truthy_num_def date_gt_def timeClip_def)

lemma expired_and_counted:
  "((\<exists>c\<in>set cs. Q c \<and> R c) \<and> 0 < length (filter Q cs)) \<longleftrightarrow> (\<exists>c\<in>set cs. Q c \<and> R c)"
  by (auto simp: filter_empty_conv)

lemma isCookieExpiredForDomain_iff:
  "isCookieExpiredForDomain cookieData h now \<longleftrightarrow>
     h \<noteq> [] \<and>
     (\<exists>c \<in> set (merged_cookies cookieData). \<exists>d e.
         domain c = Some d \<and> d \<noteq> [] \<and> expirationDate c = Some e \<and> e \<noteq> 0
       \<and> (cleanHost_of h = cookieDomain_of d \<or> endsWith (cleanHost_of h) (''.'' @ cookieDomain_of d))
       \<and> \<bar>e * 1000\<bar> \<le> 8640000000000000 \<and> e * 1000 < now)"
proof (cases "h = []")
  case True
  then show ?thesis by (simp add: isCookieExpiredForDomain_def)
next
  case False
  let ?Q = "\<lambda>c. truthy_str (domain c) \<and> truthy_num (expirationDate c)
      \<and> (cleanHost_of h = cookieDomain_of (the (domain c))
            \<or> endsWith (cleanHost_of h) (''.'' @ cookieDomain_of (the (domain c))))"
  let ?R = "\<lambda>c. date_gt now (timeClip (the (expirationDate c) * 1000))"
  let ?cs = "merged_cookies cookieData"
  have "foldl (expiry_step (cleanHost_of h) now) (False, 0) ?cs
        = (\<exists>c\<in>set ?cs. ?Q c \<and> ?R c, length (filter ?Q ?cs))"
    by (simp only: foldl_expiry_step) simp
  then have "isCookieExpiredForDomain cookieData h now
      \<longleftrightarrow> ((\<exists>c\<in>set ?cs. ?Q c \<and> ?R c) \<and> 0 < length (filter ?Q ?cs))"
    using False by (simp only: isCookieExpiredForDomain_def Let_def fst_conv snd_conv if_False)
  also have "\<dots> \<longleftrightarrow> (\<exists>c\<in>set ?cs. ?Q c \<and> ?R c)"
    by (rule expired_and_counted)
  also have "\<dots> \<longleftrightarrow> (\<exists>c \<in> set ?cs. \<exists>d e.
         domain c = Some d \<and> d \<noteq> [] \<and> expirationDate c = Some e \<and> e \<noteq> 0
       \<and> (cleanHost_of h = cookieDomain_of d \<or> endsWith (cleanHost_of h) (''.'' @ cookieDomain_of d))
       \<and> \<bar>e * 1000\<bar> \<le> 8640000000000000 \<and> e * 1000 < now)"
    using expiry_cookie_iff[of _ "cleanHost_of h" now] by (intro bex_cong refl) (simp only: conj_assoc)
  finally show ?thesis using False by simp
qed

text \<open>
  Claim C3, as the code has it. The check answers true if and only if the host name is
  not empty and some cookie has a non-empty domain and an expiration time stamp other
  than 0, its domain (lower-cased, without a leading dot, then without a leading \<open>www.\<close>)
  equals the host name (lower-cased, without a leading \<open>www.\<close>) or is a suffix of it after
  a dot, and its expiration time, a valid date, lies strictly before the evaluation time.
  A cookie without an expiration time stamp never counts.
\<close>

theorem C3_expiry_for_domain:
  "isCookieExpiredForDomain cookieData h now \<longleftrightarrow>
     h \<noteq> [] \<and>
     (\<exists>c \<in> set (merged_cookies cookieData). \<exists>d e.
         domain c = Some d \<and> d \<noteq> [] \<and> expirationDate c = Some e \<and> e \<noteq> 0
       \<and> (stripLeading ''www.'' (toLowerCase h)
             = stripLeading ''www.'' (stripLeading ''.'' (toLowerCase d))
          \<or> endsWith (stripLeading ''www.'' (toLowerCase h))
               (''.'' @ stripLeading ''www.'' (stripLeading ''.'' (toLowerCase d))))
       \<and> \<bar>e * 1000\<bar> \<le> 8640000000000000 \<and> e * 1000 < now)"
  unfolding isCookieExpiredForDomain_iff cleanHost_of_def cookieDomain_of_def ..

text \<open>
  The claim as worded counts every cookie that has an expiration time stamp. The guard of
  line 368 tests the truthiness of the field, so a cookie that expired at second 0 of the
  epoch is passed over: for it the code answers false where the claim says true.
\<close>

theorem C3_counterexample:
  "isCookieExpiredForDomain
     \<lparr>merged_cookies = [\<lparr>name = Some ''sid'', cvalue = Some ''1'', domain = Some ''x.com'',
         path = Some ''/'', expirationDate = Some 0, secure = False, httpOnly = False,
         sameSite = None\<rparr>], localStorageByDomain = []\<rparr> ''x.com'' 1000
   \<noteq> claimed_isCookieExpiredForDomain
     \<lparr>merged_cookies = [\<lparr>name = Some ''sid'', cvalue = Some ''1'', domain = Some ''x.com'',
         path = Some ''/'', expirationDate = Some 0, secure = False, httpOnly = False,
         sameSite = None\<rparr>], localStorageByDomain = []\<rparr> ''x.com'' 1000"
  by (simp add: isCookieExpiredForDomain_def claimed_isCookieExpiredForDomain_def
      claimed_expired_cookie_def truthy_str_def truthy_num_def claimed_normalize_def stripLeading_def)


lemma expiry_example_subdomain:
  "isCookieExpiredForDomain
     \<lparr>merged_cookies = [\<lparr>name = Some ''sid'', cvalue = Some ''1'', domain = Some ''.example.com'',
         path = Some ''/'', expirationDate = Some 100, secure = False, httpOnly = False,
         sameSite = None\<rparr>], localStorageByDomain = []\<rparr> ''sub.example.com'' 1000000"
  by (simp add: isCookieExpiredForDomain_def truthy_str_def truthy_num_def cleanHost_of_def
      cookieDomain_of_def stripLeading_def toLowerCase_def lower_char_def endsWith_def
      suffix_to_prefix date_gt_def timeClip_def)

lemma expiry_example_other_domain:
  "\<not> isCookieExpiredForDomain
     \<lparr>merged_cookies = [\<lparr>name = Some ''sid'', cvalue = Some ''1'', domain = Some ''other.com'',
         path = Some ''/'', expirationDate = Some 100, secure = False, httpOnly = False,
         sameSite = None\<rparr>], localStorageByDomain = []\<rparr> ''sub.example.com'' 1000000"
  by (simp add: isCookieExpiredForDomain_def truthy_str_def truthy_num_def cleanHost_of_def
      cookieDomain_of_def stripLeading_def toLowerCase_def lower_char_def endsWith_def
      suffix_to_prefix date_gt_def timeClip_def)

section \<open>The page store\<close>

lemma timestamp_of_date:
  assumes "CHR ''T'' \<notin> set d" "CHR '':'' \<notin> set d" "CHR ''.'' \<notin> set d"
  shows "timestamp_of (d @ ''T'' @ t) = d"
proof -
  have m: "map (\<lambda>c. if c = CHR '':'' \<or> c = CHR ''.'' then CHR ''-'' else c) d = d"
    using assms(2,3) by (induction d) auto
  have "takeWhile (\<lambda>c. c \<noteq> CHR ''T'') (d @ CHR ''T'' # r) = d" for r
    using assms(1) by (induction d) auto
  then show ?thesis by (simp add: timestamp_of_def m)
qed

lemma savePageContent_fails:
  "parseURL u = None \<or> read_only fs \<Longrightarrow>
   savePageContent parseURL PAGES_DIR isoString fs u content title isError = (None, fs)"
  by (auto simp: savePageContent_def writeFileSync_def split: option.splits)

text \<open>
  Claim C5, as the code has it. For a URL that parses and a writable store, the path
  written is the pages directory, the host name, the path of the URL with every
  character other than a letter, a digit, a dot or a hyphen replaced by an underscore,
  an underscore, the date part of the ISO time stamp, \<open>_ERROR\<close> exactly for an error
  outcome, and \<open>.md\<close>. A second save for the same URL on the same day with the same
  outcome writes the same path: the file then holds the second content and no file is
  added.
\<close>

theorem C5_page_path:
  assumes "parseURL u = Some urlObj"
    and "CHR ''T'' \<notin> set day \<and> CHR '':'' \<notin> set day \<and> CHR ''.'' \<notin> set day"
    and "\<not> read_only fs"
  shows "\<exists>fs1 fs2.
      (let p = PAGES_DIR @ ''/'' @ hostname urlObj
                 @ map (\<lambda>c. if is_alnum c \<or> c = CHR ''.'' \<or> c = CHR ''-'' then c else CHR ''_'')
                     (pathname urlObj)
                 @ ''_'' @ day @ (if isError then ''_ERROR'' else '''') @ ''.md''
       in savePageContent parseURL PAGES_DIR (day @ ''T'' @ time1) fs u content1 title1 isError
            = (Some p, fs1)
        \<and> savePageContent parseURL PAGES_DIR (day @ ''T'' @ time2) fs1 u content2 title2 isError
            = (Some p, fs2)
        \<and> map_of (files fs2) p = Some content2
        \<and> length (files fs2) = length (files fs1))"
proof -
  have ts: "timestamp_of (day @ ''T'' @ t) = day" for t
    using assms(2) timestamp_of_date[of day t] by simp
  have sc: "sanitize_pathname p =
      map (\<lambda>c. if is_alnum c \<or> c = CHR ''.'' \<or> c = CHR ''-'' then c else CHR ''_'') p" for p
    by (simp add: sanitize_pathname_def sanitize_char_def)
  show ?thesis
    using assms(1,3) ts[of time1] ts[of time2]
    by (simp add: savePageContent_def writeFileSync_def page_filename_def sc Let_def
        map_of_obj_set length_obj_set)
qed

theorem C5_page_path_witness:
  "CHR ''T'' \<notin> set ''2026-11-03'' \<and> CHR '':'' \<notin> set ''2026-11-03''
   \<and> CHR ''.'' \<notin> set ''2026-11-03''
   \<and> (\<exists>fs1 fs2.
        savePageContent (\<lambda>u. Some \<lparr>hostname = ''example.com'', pathname = ''/a-b/c.html''\<rparr>)
            ''/pages'' ''2026-11-03T10:11:12.123Z'' \<lparr>files = [], read_only = False\<rparr>
            ''https://example.com/a-b/c.html'' ''first'' ''t'' False
          = (Some ''/pages/example.com_a-b_c.html_2026-11-03.md'', fs1)
      \<and> savePageContent (\<lambda>u. Some \<lparr>hostname = ''example.com'', pathname = ''/a-b/c.html''\<rparr>)
            ''/pages'' ''2026-11-03T23:59:59.000Z'' fs1
            ''https://example.com/a-b/c.html'' ''second'' ''t'' False
          = (Some ''/pages/example.com_a-b_c.html_2026-11-03.md'', fs2)
      \<and> map_of (files fs2) ''/pages/example.com_a-b_c.html_2026-11-03.md'' = Some ''second''
      \<and> length (files fs2) = length (files fs1))"
  using C5_page_path [of "\<lambda>u. Some \<lparr>hostname = ''example.com'', pathname = ''/a-b/c.html''\<rparr>"
      "''https://example.com/a-b/c.html''" "\<lparr>hostname = ''example.com'', pathname = ''/a-b/c.html''\<rparr>"
      "''2026-11-03''" "\<lparr>files = [], read_only = False\<rparr>" "''/pages''"
      False "''10:11:12.123Z''" "''first''" "''t''" "''23:59:59.000Z''" "''second''" "''t''"]
  by (simp add: is_alnum_def Let_def)

text \<open>
  The claim as worded replaces every character that is not a letter or a digit; the code
  keeps dots and hyphens, so the two file names differ for the path \<open>/a-b/c.html\<close>.
\<close>

theorem C5_counterexample:
  "page_filename \<lparr>hostname = ''example.com'', pathname = ''/a-b/c.html''\<rparr>
       ''2026-11-03T10:11:12.123Z'' False
   \<noteq> claimed_page_filename \<lparr>hostname = ''example.com'', pathname = ''/a-b/c.html''\<rparr>
       ''2026-11-03T10:11:12.123Z'' False"
  by (simp add: page_filename_def claimed_page_filename_def sanitize_pathname_def
      claimed_sanitize_pathname_def sanitize_char_def is_alnum_def)

section \<open>The domain rule resolver\<close>

lemma trim_nonempty: "0 < length (trim s) \<Longrightarrow> s \<noteq> []"
  by (auto simp: trim_def)

lemma blocked_item_nonempty: "blocked_item j = Some s \<Longrightarrow> s \<noteq> []"
  by (cases j) (auto simp: trim_nonempty split: if_splits)

lemma rule_shape_of_object: "rule_shape (rule_of_object v)"
  by (auto simp: rule_shape_def rule_of_object_def list_all_iff map_filter_def
      dest: blocked_item_nonempty split: option.splits json.splits)

lemma table_shape_set:
  "table_shape T \<Longrightarrow> rule_shape r \<Longrightarrow> table_shape (table_set T k r)"
proof -
  have "list_all (\<lambda>e. rule_shape (snd e)) (obj_set k r kvs)"
    if "list_all (\<lambda>e. rule_shape (snd e)) kvs" "rule_shape r" for kvs
    using that by (induction kvs) auto
  then show "table_shape T \<Longrightarrow> rule_shape r \<Longrightarrow> table_shape (table_set T k r)"
    by (auto simp: table_shape_def table_set_def)
qed

lemma table_shape_entry: "table_shape T \<Longrightarrow> table_shape (normalize_entry T e)"
proof -
  assume T: "table_shape T"
  obtain k v where e: "e = (k, v)" by (cases e)
  have s: "table_shape (table_set T k \<lparr>selector = Some s, blockedIfContains = []\<rparr>)" for s
    using T by (intro table_shape_set) (simp_all add: rule_shape_def)
  have o: "table_shape (table_set T k (rule_of_object v))"
    using T by (intro table_shape_set rule_shape_of_object)
  show ?thesis unfolding e using T s o by (cases v) simp_all
qed

lemma table_shape_foldl:
  "table_shape T \<Longrightarrow> table_shape (foldl normalize_entry T es)"
  by (induction es arbitrary: T) (simp_all add: table_shape_entry)

lemma table_shape_empty: "table_shape empty_table"
  by (simp add: table_shape_def empty_table_def)

lemma table_shape_normalize: "table_shape (normalizeDomainRules rawRules)"
  by (cases rawRules) (simp_all add: table_shape_foldl table_shape_empty del: object_entries.simps)

lemma table_shape_load: "table_shape (load_domain_rules cfg)"
  by (cases cfg) (simp_all add: load_domain_rules_def table_shape_normalize table_shape_empty)

lemma partial_match_in_table:
  "partial_match h m kvs = Some r \<Longrightarrow> r \<in> snd ` set kvs"
  by (induction kvs) (auto split: if_splits)

lemma partial_match_find:
  "partial_match h m kvs =
     map_option snd (find (\<lambda>e. str_includes h (fst e) \<or> str_includes (fst e) m) kvs)"
  by (induction kvs) auto

lemma table_get_shape:
  "table_shape T \<Longrightarrow> table_get T k = RuleObj r \<Longrightarrow> rule_shape r"
  by (auto simp: table_get_def table_shape_def list_all_iff
      dest!: map_of_SomeD split: option.splits if_splits)

lemma resolver_rule_shape:
  assumes "table_shape T" and "getDomainRuleForUrl parseURL T u = RuleObj r"
  shows "rule_shape r"
proof (cases "parseURL u")
  case None
  then show ?thesis using assms(2)
    by (auto simp: getDomainRuleForUrl_def empty_rule_def rule_shape_def)
next
  case (Some urlObj)
  let ?h = "toLowerCase (hostname urlObj)"
  consider (a) "truthy (table_get T ?h)"
    | (b) "\<not> truthy (table_get T ?h)" "truthy (table_get T (mainDomain_of ?h))"
    | (c) "\<not> truthy (table_get T ?h)" "\<not> truthy (table_get T (mainDomain_of ?h))"
    by blast
  then show ?thesis
  proof cases
    case a
    then show ?thesis using assms Some
      by (auto simp: getDomainRuleForUrl_def Let_def dest: table_get_shape)
  next
    case b
    then show ?thesis using assms Some
      by (auto simp: getDomainRuleForUrl_def Let_def dest: table_get_shape)
  next
    case c
    then have "RuleObj r = (case partial_match ?h (mainDomain_of ?h) (own T) of
                   Some rule \<Rightarrow> RuleObj rule | None \<Rightarrow> RuleObj empty_rule)"
      using assms(2) Some by (simp add: getDomainRuleForUrl_def Let_def)
    then show ?thesis using assms(1)
      by (auto simp: table_shape_def list_all_iff empty_rule_def rule_shape_def
          dest!: partial_match_in_table split: option.splits)
  qed
qed

lemma table_get_own:
  "proto T = None \<Longrightarrow> k \<notin> set object_prototype_names \<Longrightarrow>
   table_get T k = (case map_of (own T) k of Some r \<Rightarrow> RuleObj r | None \<Rightarrow> Undefined)"
  by (simp add: table_get_def split: option.splits)

lemma resolver_order:
  assumes "parseURL u = Some urlObj" and "h = toLowerCase (hostname urlObj)"
    and "proto T = None"
    and "h \<notin> set object_prototype_names" and "mainDomain_of h \<notin> set object_prototype_names"
  shows "getDomainRuleForUrl parseURL T u =
     RuleObj (case map_of (own T) h of
                Some r \<Rightarrow> r
              | None \<Rightarrow>
                 (case map_of (own T) (mainDomain_of h) of
                    Some r \<Rightarrow> r
                  | None \<Rightarrow>
                     (case find (\<lambda>e. str_includes h (fst e) \<or> str_includes (fst e) (mainDomain_of h))
                             (own T) of
                        Some e \<Rightarrow> snd e
                      | None \<Rightarrow> empty_rule)))"
  using assms
  by (simp add: getDomainRuleForUrl_def Let_def table_get_own partial_match_find
      split: option.splits)

lemma resolver_parse_failure:
  "parseURL u = None \<Longrightarrow> getDomainRuleForUrl parseURL T u = RuleObj empty_rule"
  by (simp add: getDomainRuleForUrl_def)

lemma normalize_proto_None:
  "''__proto__'' \<notin> fst ` set (object_entries rawRules) \<Longrightarrow> proto (normalizeDomainRules rawRules) = None"
proof -
  have "proto (foldl normalize_entry T es) = proto T" if "''__proto__'' \<notin> fst ` set es" for T es
    using that
  proof (induction es arbitrary: T)
    case Nil
    then show ?case by simp
  next
    case (Cons e es)
    obtain k v where e: "e = (k, v)" by (cases e)
    have "proto (normalize_entry T e) = proto T"
      using Cons.prems unfolding e by (cases v) (auto simp: table_set_def)
    then show ?case using Cons by simp
  qed
  then show "''__proto__'' \<notin> fst ` set (object_entries rawRules) \<Longrightarrow> proto (normalizeDomainRules rawRules) = None"
    by (cases rawRules) (simp_all add: empty_table_def del: object_entries.simps)
qed

text \<open>
  Claim C4. Outside the names that every object inherits the resolver follows the order
  of the claim (\<open>resolver_order\<close>, \<open>resolver_parse_failure\<close>). For the host name
  \<open>constructor\<close> and an empty table no step of the claim matches, yet the read
  \<^verbatim>\<open>domainRules[hostname]\<close> of line 122 finds the inherited member and the resolver
  returns it (line 123) instead of the empty rule.
\<close>

theorem C4_resolver_inherited_name:
  "getDomainRuleForUrl
     (\<lambda>u. if u = ''http://constructor/'' then Some \<lparr>hostname = ''constructor'', pathname = ''/''\<rparr>
           else None)
     (load_domain_rules None) ''http://constructor/'' \<noteq> RuleObj empty_rule
   \<and> own (load_domain_rules None) = []"
  by code_simp

text \<open>
  Claim C10. The rules of a normalized table have the shape of the claim
  (\<open>table_shape_load\<close>), and so has every rule object the resolver returns
  (\<open>resolver_rule_shape\<close>). For the host name \<open>constructor\<close> the resolver returns the
  inherited member of the table object, which is no rule: it has neither a selector that
  is a string or null nor an array of markers.
\<close>

theorem C10_resolver_result_not_a_rule:
  "getDomainRuleForUrl
     (\<lambda>u. if u = ''http://constructor/'' then Some \<lparr>hostname = ''constructor'', pathname = ''/''\<rparr>
           else None)
     (normalizeDomainRules (JObj [(''example.com'', JStr ''article'')])) ''http://constructor/''
     = Inherited ''constructor''
   \<and> \<not> result_shape (getDomainRuleForUrl
     (\<lambda>u. if u = ''http://constructor/'' then Some \<lparr>hostname = ''constructor'', pathname = ''/''\<rparr>
           else None)
     (normalizeDomainRules (JObj [(''example.com'', JStr ''article'')])) ''http://constructor/'')"
  by code_simp

section \<open>Blank-line compression\<close>

lemma run_split:
  assumes "b = [] \<or> hd b \<noteq> nl"
  shows "takeWhile (\<lambda>x. x = nl) (replicate n nl @ b) = replicate n nl"
    and "dropWhile (\<lambda>x. x = nl) (replicate n nl @ b) = b"
  using assms by (induction n) (cases b; auto)+

lemma compress_run:
  assumes "3 \<le> n" and "b = [] \<or> hd b \<noteq> nl"
  shows "compressBlankLines (replicate n nl @ b) = [nl, nl] @ compressBlankLines b"
proof -
  from assms(1) obtain m where n: "n = Suc m" by (cases n) auto
  have "compressBlankLines (nl # replicate m nl @ b)
        = [nl, nl] @ compressBlankLines (dropWhile (\<lambda>x. x = nl) (nl # replicate m nl @ b))"
    using run_split(1)[OF assms(2), of n] assms(1) unfolding n
    by (subst compressBlankLines.simps(2)) simp
  then show ?thesis using run_split(2)[OF assms(2), of n] unfolding n by simp
qed

lemma tw_append_last:
  assumes "a \<noteq> []" and "last a \<noteq> nl"
  shows "takeWhile (\<lambda>x. x = nl) (a @ s) = takeWhile (\<lambda>x. x = nl) a"
    and "dropWhile (\<lambda>x. x = nl) (a @ s) = dropWhile (\<lambda>x. x = nl) a @ s"
    and "dropWhile (\<lambda>x. x = nl) a \<noteq> []"
    and "last (dropWhile (\<lambda>x. x = nl) a) = last a"
  using assms by (induction a) (auto split: if_splits)

lemma compress_append:
  "a = [] \<or> last a \<noteq> nl \<Longrightarrow>
   compressBlankLines (a @ s) = compressBlankLines a @ compressBlankLines s"
proof (induction a rule: compressBlankLines.induct)
  case 1
  then show ?case by simp
next
  case (2 c cs)
  from "2.prems" have l: "last (c # cs) \<noteq> nl" by simp
  show ?case
  proof (cases "3 \<le> length (takeWhile (\<lambda>x. x = nl) (c # cs))")
    case True
    have "compressBlankLines (dropWhile (\<lambda>x. x = nl) (c # cs) @ s) =
          compressBlankLines (dropWhile (\<lambda>x. x = nl) (c # cs)) @ compressBlankLines s"
      using "2.IH"(1)[OF True] tw_append_last(3,4)[OF _ l] l by simp
    then show ?thesis
      using True tw_append_last(1,2)[OF _ l, of s]
      by (simp add: compressBlankLines.simps(2) del: takeWhile.simps dropWhile.simps)
  next
    case False
    have "cs = [] \<or> last cs \<noteq> nl" using l by (cases cs) auto
    then have "compressBlankLines (cs @ s) = compressBlankLines cs @ compressBlankLines s"
      using "2.IH"(2)[OF False] by simp
    then show ?thesis
      using False tw_append_last(1,2)[OF _ l, of s]
      by (simp add: compressBlankLines.simps(2) del: takeWhile.simps dropWhile.simps)
  qed
qed

lemma takeWhile_dropWhile_nl:
  "takeWhile (\<lambda>x. x = nl) (dropWhile (\<lambda>x. x = nl) s) = []"
  by (induction s) auto

lemma compress_takeWhile:
  "takeWhile (\<lambda>x. x = nl) (compressBlankLines s) =
   (if 3 \<le> length (takeWhile (\<lambda>x. x = nl) s) then [nl, nl] else takeWhile (\<lambda>x. x = nl) s)"
proof (induction s rule: compressBlankLines.induct)
  case 1
  then show ?case by simp
next
  case (2 c cs)
  show ?case
  proof (cases "3 \<le> length (takeWhile (\<lambda>x. x = nl) (c # cs))")
    case True
    have "takeWhile (\<lambda>x. x = nl) (compressBlankLines (dropWhile (\<lambda>x. x = nl) (c # cs))) = []"
      using "2.IH"(1)[OF True] takeWhile_dropWhile_nl[of "c # cs"] by simp
    then show ?thesis using True
      by (simp add: compressBlankLines.simps(2) del: takeWhile.simps dropWhile.simps) simp
  next
    case False
    then show ?thesis using "2.IH"(2)[OF False]
      by (auto simp add: compressBlankLines.simps(2) split: if_splits)
  qed
qed

lemma prefix_run: "prefix [nl, nl, nl] z \<Longrightarrow> 3 \<le> length (takeWhile (\<lambda>x. x = nl) z)"
  by (auto simp: prefix_def)

lemma compress_no_triple: "\<not> sublist [nl, nl, nl] (compressBlankLines s)"
proof (induction s rule: compressBlankLines.induct)
  case 1
  then show ?case by simp
next
  case (2 c cs)
  show ?case
  proof (cases "3 \<le> length (takeWhile (\<lambda>x. x = nl) (c # cs))")
    case True
    let ?r = "compressBlankLines (dropWhile (\<lambda>x. x = nl) (c # cs))"
    have e: "compressBlankLines (c # cs) = nl # nl # ?r"
      using True by (simp add: compressBlankLines.simps(2) del: takeWhile.simps dropWhile.simps)
    have t: "takeWhile (\<lambda>x. x = nl) ?r = []"
      using takeWhile_dropWhile_nl[of "c # cs"] by (simp add: compress_takeWhile)
    have "\<not> prefix [nl, nl, nl] (nl # nl # ?r)" "\<not> prefix [nl, nl, nl] (nl # ?r)"
      using t by (auto simp: prefix_def)
    then show ?thesis
      using "2.IH"(1)[OF True] unfolding e by (simp add: sublist_Cons_right del: dropWhile.simps)
  next
    case False
    have e: "compressBlankLines (c # cs) = c # compressBlankLines cs"
      using False by (simp add: compressBlankLines.simps(2) del: takeWhile.simps dropWhile.simps)
    have "\<not> 3 \<le> length (takeWhile (\<lambda>x. x = nl) (compressBlankLines (c # cs)))"
      using False by (simp add: compress_takeWhile del: takeWhile.simps)
    then have "\<not> prefix [nl, nl, nl] (c # compressBlankLines cs)"
      using prefix_run unfolding e by blast
    then show ?thesis
      using "2.IH"(2)[OF False] unfolding e by (simp add: sublist_Cons_right)
  qed
qed

text \<open>
  Claim C8. Body normalization collapses every run of three or more consecutive newlines
  to exactly two: a maximal run of \<open>n \<ge> 3\<close> newlines, between a text \<open>a\<close> that does not
  end in a newline and a text \<open>b\<close> that does not begin with one, comes out as two newlines
  between the normalized \<open>a\<close> and the normalized \<open>b\<close>; the result has nowhere three
  newlines in a row; and a body of four newlines comes out as two.
\<close>

theorem C8_blank_line_compression:
  "(3 \<le> n \<and> (a = [] \<or> last a \<noteq> nl) \<and> (b = [] \<or> hd b \<noteq> nl) \<longrightarrow>
      compressBlankLines (a @ replicate n nl @ b)
        = compressBlankLines a @ [nl, nl] @ compressBlankLines b)
   \<and> \<not> sublist [nl, nl, nl] (compressBlankLines s)
   \<and> compressBlankLines [nl, nl, nl, nl] = [nl, nl]"
proof (intro conjI impI)
  assume h: "3 \<le> n \<and> (a = [] \<or> last a \<noteq> nl) \<and> (b = [] \<or> hd b \<noteq> nl)"
  then have "compressBlankLines (a @ replicate n nl @ b)
             = compressBlankLines a @ compressBlankLines (replicate n nl @ b)"
    by (simp add: compress_append)
  with h show "compressBlankLines (a @ replicate n nl @ b)
        = compressBlankLines a @ [nl, nl] @ compressBlankLines b"
    by (simp add: compress_run)
next
  show "\<not> sublist [nl, nl, nl] (compressBlankLines s)"
    by (rule compress_no_triple)
next
  show "compressBlankLines [nl, nl, nl, nl] = [nl, nl]"
    by (simp add: compressBlankLines.simps(2))
qed

theorem C8_blank_line_compression_witness:
  "(3::nat) \<le> 5 \<and> last ''ab'' \<noteq> nl \<and> hd ''cd'' \<noteq> nl
   \<and> compressBlankLines (''ab'' @ replicate 5 nl @ ''cd'') = ''ab'' @ [nl, nl] @ ''cd''"
  using C8_blank_line_compression [of 5 "''ab''" "''cd''" "[]"]
  by (simp add: compressBlankLines.simps(2) nl_def)

section \<open>Login-wall notice\<close>

lemma sublist_map_iff:
  "sublist (map f m) (map f h) \<longleftrightarrow> (\<exists>pre w post. h = pre @ w @ post \<and> map f w = map f m)"
proof
  assume "sublist (map f m) (map f h)"
  then obtain ps ss where e: "map f h = ps @ (map f m @ ss)"
    unfolding sublist_def by blast
  have "\<exists>us vs. h = us @ vs \<and> ps = map f us \<and> map f m @ ss = map f vs"
    using e by (simp only: map_eq_append_conv)
  then obtain pre r where h: "h = pre @ r" and r: "map f r = map f m @ ss"
    by (elim exE conjE) simp
  have "\<exists>us vs. r = us @ vs \<and> map f m = map f us \<and> ss = map f vs"
    using r by (simp only: map_eq_append_conv)
  then obtain w post where "r = w @ post" and "map f w = map f m"
    by (elim exE conjE) simp
  with h show "\<exists>pre w post. h = pre @ w @ post \<and> map f w = map f m" by blast
next
  assume "\<exists>pre w post. h = pre @ w @ post \<and> map f w = map f m"
  then obtain pre w post where "h = pre @ w @ post" and "map f w = map f m" by blast
  then have "map f h = map f pre @ map f m @ map f post" by simp
  then show "sublist (map f m) (map f h)" unfolding sublist_def by blast
qed

lemma tips_line_iff:
  "(\<exists>l \<in> set (yamlLines notice title u finalUrl b). prefix ''cookie_expired_tips: '' l) \<longleftrightarrow> b"
  by (auto simp: yamlLines_def)

lemma tips_line_eq:
  "l \<in> set (yamlLines notice title u finalUrl b) \<Longrightarrow> prefix ''cookie_expired_tips: '' l \<Longrightarrow>
   l = ''cookie_expired_tips: '' @ toYamlPlainString notice"
  by (auto simp: yamlLines_def split: if_splits)

text \<open>
  Claim C9. Where the resolver returns a rule for the URL, the front matter of the output
  has a \<open>cookie_expired_tips\<close> line if and only if the lower-cased raw HTML of the page
  contains the lower-cased form of one of the \<open>blockedIfContains\<close> markers of that rule;
  and that is the case exactly when some stretch of the raw HTML equals a marker up to
  letter case. With no such marker, and where the resolver returns no rule object, the
  line is absent. A line that is present is the notice.
\<close>

theorem C9_login_wall_notice:
  "(getDomainRuleForUrl parseURL domainRules u = RuleObj r \<longrightarrow>
      ((\<exists>l \<in> set (front_matter parseURL domainRules notice u title finalUrl content).
            prefix ''cookie_expired_tips: '' l)
         \<longleftrightarrow> (\<exists>marker \<in> set (blockedIfContains r).
               str_includes (toLowerCase content) (toLowerCase marker)))
    \<and> ((\<exists>l \<in> set (front_matter parseURL domainRules notice u title finalUrl content).
            prefix ''cookie_expired_tips: '' l)
         \<longleftrightarrow> (\<exists>marker \<in> set (blockedIfContains r).
               \<exists>pre w post. content = pre @ w @ post \<and> toLowerCase w = toLowerCase marker)))
   \<and> ((\<forall>r. getDomainRuleForUrl parseURL domainRules u \<noteq> RuleObj r) \<longrightarrow>
        \<not> (\<exists>l \<in> set (front_matter parseURL domainRules notice u title finalUrl content).
              prefix ''cookie_expired_tips: '' l))
   \<and> (\<forall>l \<in> set (front_matter parseURL domainRules notice u title finalUrl content).
        prefix ''cookie_expired_tips: '' l \<longrightarrow>
        l = ''cookie_expired_tips: '' @ toYamlPlainString notice)"
proof (intro conjI impI ballI)
  assume r: "getDomainRuleForUrl parseURL domainRules u = RuleObj r"
  show "(\<exists>l \<in> set (front_matter parseURL domainRules notice u title finalUrl content).
            prefix ''cookie_expired_tips: '' l)
         \<longleftrightarrow> (\<exists>marker \<in> set (blockedIfContains r).
               str_includes (toLowerCase content) (toLowerCase marker))"
    unfolding front_matter_def tips_line_iff needsLoginState_def list_ex_iff r by simp
  show "(\<exists>l \<in> set (front_matter parseURL domainRules notice u title finalUrl content).
            prefix ''cookie_expired_tips: '' l)
         \<longleftrightarrow> (\<exists>marker \<in> set (blockedIfContains r).
               \<exists>pre w post. content = pre @ w @ post \<and> toLowerCase w = toLowerCase marker)"
    unfolding front_matter_def tips_line_iff needsLoginState_def list_ex_iff r str_includes_def
      toLowerCase_def sublist_map_iff by simp
next
  assume n: "\<forall>r. getDomainRuleForUrl parseURL domainRules u \<noteq> RuleObj r"
  then have "rule_markers (getDomainRuleForUrl parseURL domainRules u) = []"
    by (cases "getDomainRuleForUrl parseURL domainRules u") simp_all
  then show "\<not> (\<exists>l \<in> set (front_matter parseURL domainRules notice u title finalUrl content).
              prefix ''cookie_expired_tips: '' l)"
    unfolding front_matter_def tips_line_iff needsLoginState_def by simp
next
  fix l
  assume "l \<in> set (front_matter parseURL domainRules notice u title finalUrl content)"
    and "prefix ''cookie_expired_tips: '' l"
  then show "l = ''cookie_expired_tips: '' @ toYamlPlainString notice"
    unfolding front_matter_def by (rule tips_line_eq)
qed

theorem C9_login_wall_notice_witness:
  "getDomainRuleForUrl example_parseURL example_rules example_url = RuleObj example_rule
   \<and> (\<exists>l \<in> set (front_matter example_parseURL example_rules example_notice example_url
                    example_notice example_url example_login_page).
        prefix ''cookie_expired_tips: '' l)
   \<and> (\<exists>pre w post. example_login_page = pre @ w @ post
        \<and> toLowerCase w = toLowerCase example_marker)
   \<and> \<not> (\<exists>l \<in> set (front_matter example_parseURL example_rules example_notice example_url
                    example_notice example_url example_plain_page).
        prefix ''cookie_expired_tips: '' l)"
proof -
  have r: "getDomainRuleForUrl example_parseURL example_rules example_url = RuleObj example_rule"
    by code_simp
  have y: "str_includes (toLowerCase example_login_page) (toLowerCase example_marker)"
    by code_simp
  have n: "\<not> str_includes (toLowerCase example_plain_page) (toLowerCase example_marker)"
    by code_simp
  have m: "set (blockedIfContains example_rule) = {example_marker}"
    by (simp add: example_rule_def)
  have me: "example_marker \<in> set (blockedIfContains example_rule)"
    by (simp add: example_rule_def)
  note c1 = C9_login_wall_notice [of example_parseURL example_rules example_url example_rule
      example_notice example_notice example_url example_login_page,
      THEN conjunct1, THEN mp, OF r]
  note c2 = C9_login_wall_notice [of example_parseURL example_rules example_url example_rule
      example_notice example_notice example_url example_plain_page,
      THEN conjunct1, THEN mp, OF r]
  have t1: "\<exists>l \<in> set (front_matter example_parseURL example_rules example_notice example_url
                    example_notice example_url example_login_page).
        prefix ''cookie_expired_tips: '' l"
    by (rule c1[THEN conjunct1, THEN iffD2]) (rule bexI[where P = "\<lambda>marker. str_includes (toLowerCase example_login_page) (toLowerCase marker)",
          OF y me])
  have "\<exists>marker \<in> set (blockedIfContains example_rule).
          \<exists>pre w post. example_login_page = pre @ w @ post
            \<and> toLowerCase w = toLowerCase marker"
    by (rule c1[THEN conjunct2, THEN iffD1]) (rule t1)
  then have d1: "\<exists>pre w post. example_login_page = pre @ w @ post
        \<and> toLowerCase w = toLowerCase example_marker"
    unfolding m by (simp only: bex_simps simp_thms)
  have "\<not> (\<exists>marker \<in> set (blockedIfContains example_rule).
          str_includes (toLowerCase example_plain_page) (toLowerCase marker))"
    unfolding m using n by (simp only: bex_simps simp_thms)
  then have t2: "\<not> (\<exists>l \<in> set (front_matter example_parseURL example_rules example_notice example_url
                    example_notice example_url example_plain_page).
        prefix ''cookie_expired_tips: '' l)"
    unfolding c2[THEN conjunct1] .
  from r t1 d1 t2 show ?thesis by (intro conjI)
qed

end
